theory Spec2Isabelle
  imports Main "HOL-Library.Word"
begin

section \<open>C library: characters, strings, scanf and printf\<close>

text \<open>
  A C string is a \<open>string\<close> without its terminating NUL.  Memory is assumed
  sufficient: \<open>safemalloc\<close> and \<open>safecalloc\<close> return a buffer, so the early
  returns of \<open>reqs.c\<close> that only report an exhausted heap are not branches of
  the model.
\<close>

definition NUL :: char where
  "NUL = CHR 0x00"

definition isspace :: "char \<Rightarrow> bool" where
  "isspace c = (c \<in> set [CHR '' '', CHR 0x09, CHR 0x0A, CHR 0x0B, CHR 0x0C, CHR 0x0D])"

definition isdigit :: "char \<Rightarrow> bool" where
  "isdigit c = (c \<in> set ''0123456789'')"

definition digit_val :: "char \<Rightarrow> nat" where
  "digit_val c = (case map_of (zip ''0123456789'' [0, 1, 2, 3, 4, 5, 6, 7, 8, 9]) c of Some d \<Rightarrow> d | None \<Rightarrow> 0)"

definition tolower :: "char \<Rightarrow> char" where
  "tolower c = (case map_of (zip ''ABCDEFGHIJKLMNOPQRSTUVWXYZ'' ''abcdefghijklmnopqrstuvwxyz'') c
                of Some d \<Rightarrow> d | None \<Rightarrow> c)"

text \<open>\<open>strcasecmp(a, b) == 0\<close> and \<open>strncasecmp(a, b, n) == 0\<close>.\<close>

definition strcaseeq :: "string \<Rightarrow> string \<Rightarrow> bool" where
  "strcaseeq a b = (map tolower a = map tolower b)"

definition strncaseeq :: "string \<Rightarrow> string \<Rightarrow> nat \<Rightarrow> bool" where
  "strncaseeq a b n = strcaseeq (take n a) (take n b)"

text \<open>\<open>memcpy(dst, src, n)\<close> over the first \<open>n\<close> bytes of a string at least that long.\<close>

definition memcpy :: "string \<Rightarrow> string \<Rightarrow> nat \<Rightarrow> string" where
  "memcpy dst src n = take n src @ drop n dst"

text \<open>
  The value of a run of decimal digits, and the text that an integer
  conversion of scanf takes: an optional sign, then at least one digit.
\<close>

definition digits_val :: "string \<Rightarrow> nat" where
  "digits_val ds = foldl (\<lambda>a c. 10 * a + digit_val c) 0 ds"

definition scan_unsigned :: "string \<Rightarrow> (bool \<times> nat \<times> string) option" where
  "scan_unsigned inp =
     (let (neg, r) = (case inp of
                        c # r' \<Rightarrow> if c = CHR ''-'' then (True, r')
                                  else if c = CHR ''+'' then (False, r')
                                  else (False, inp)
                      | [] \<Rightarrow> (False, inp));
          ds = takeWhile isdigit r
      in if ds = [] then None else Some (neg, digits_val ds, drop (length ds) r))"

text \<open>
  The C library converts the digits with \<open>strtoul\<close>: a value beyond
  \<open>ULONG_MAX\<close> becomes \<open>ULONG_MAX\<close> whatever the sign, and a minus sign
  negates the value in \<open>unsigned long\<close> (64 bits here).  \<open>strtol\<close> stops at
  \<open>LONG_MAX\<close> and \<open>LONG_MIN\<close>.
\<close>

definition ULONG_MAX :: nat where
  "ULONG_MAX = 2 ^ 64 - 1"

definition strtoul :: "bool \<Rightarrow> nat \<Rightarrow> nat" where
  "strtoul neg n =
     (if ULONG_MAX < n then ULONG_MAX
      else if neg then (2 ^ 64 - n) mod 2 ^ 64
      else n)"

definition strtol :: "bool \<Rightarrow> nat \<Rightarrow> int" where
  "strtol neg n =
     (if neg then max (- int n) (- (2 ^ 63)) else min (int n) (2 ^ 63 - 1))"

text \<open>
  The directives of the format strings that \<open>reqs.c\<close> passes to \<open>sscanf\<close>:
  literal characters, white space, \<open>%[^...]\<close>, \<open>%s\<close>, \<open>%hu\<close> and \<open>%u\<close>.
  A numeric conversion stores what \<open>strtoul\<close> returns through its C type,
  so \<open>%hu\<close> keeps it modulo \<open>2^16\<close> and \<open>%u\<close> modulo \<open>2^32\<close>.
\<close>

datatype directive = Lit string | WS | NotSet string | ConvS | ConvHU | ConvU

datatype scanval = VStr string | VShort "16 word" | VUInt "32 word"

text \<open>
  \<open>sscanf\<close> returns the values it assigned, in order; the C return value is
  their number (\<open>EOF\<close> where the input ends before the first conversion, which
  every caller here treats like 0).
\<close>

fun sscanf :: "string \<Rightarrow> directive list \<Rightarrow> scanval list" where
  "sscanf inp [] = []"
| "sscanf inp (Lit l # ds) =
     (if take (length l) inp = l then sscanf (drop (length l) inp) ds else [])"
| "sscanf inp (WS # ds) = sscanf (dropWhile isspace inp) ds"
| "sscanf inp (NotSet cs # ds) =
     (let tok = takeWhile (\<lambda>c. c \<notin> set cs) inp
      in if tok = [] then [] else VStr tok # sscanf (drop (length tok) inp) ds)"
| "sscanf inp (ConvS # ds) =
     (let inp' = dropWhile isspace inp;
          tok = takeWhile (\<lambda>c. \<not> isspace c) inp'
      in if tok = [] then [] else VStr tok # sscanf (drop (length tok) inp') ds)"
| "sscanf inp (ConvHU # ds) =
     (case scan_unsigned (dropWhile isspace inp) of
        None \<Rightarrow> []
      | Some (neg, n, rest) \<Rightarrow>
          VShort (of_nat (strtoul neg n)) # sscanf rest ds)"
| "sscanf inp (ConvU # ds) =
     (case scan_unsigned (dropWhile isspace inp) of
        None \<Rightarrow> []
      | Some (neg, n, rest) \<Rightarrow>
          VUInt (of_nat (strtoul neg n)) # sscanf rest ds)"

text \<open>\<open>%d\<close> and \<open>%u\<close> of a non-negative value.\<close>

definition digit_char :: "nat \<Rightarrow> char" where
  "digit_char d = ''0123456789'' ! (d mod 10)"

fun dec :: "nat \<Rightarrow> string" where
  "dec n = (if n < 10 then [digit_char n] else dec (n div 10) @ [digit_char (n mod 10)])"

text \<open>
  \<open>snprintf(buf, size, ...)\<close> stores at most \<open>size - 1\<close> bytes of the formatted
  text, then the NUL.
\<close>

definition snprintf :: "nat \<Rightarrow> string \<Rightarrow> string" where
  "snprintf n formatted = take (n - 1) formatted"

section \<open>The request line\<close>

record request_s =
  "method" :: string
  protocol :: string
  host :: string
  port :: "16 word"
  path :: string

text \<open>\<open>extract_http_url\<close>: the four \<open>sscanf\<close> attempts, in the order of the source.\<close>

definition extract_http_url :: "string \<Rightarrow> request_s \<Rightarrow> request_s option" where
  "extract_http_url url request =
     (case sscanf url [Lit ''http://'', NotSet '':/'', Lit '':'', ConvHU, ConvS] of
        [VStr h, VShort p, VStr pa] \<Rightarrow> Some (request\<lparr>host := h, port := p, path := pa\<rparr>)
      | _ \<Rightarrow>
     (case sscanf url [Lit ''http://'', NotSet ''/'', ConvS] of
        [VStr h, VStr pa] \<Rightarrow> Some (request\<lparr>host := h, port := 80, path := pa\<rparr>)
      | _ \<Rightarrow>
     (case sscanf url [Lit ''http://'', NotSet '':/'', Lit '':'', ConvHU] of
        [VStr h, VShort p] \<Rightarrow> Some (request\<lparr>host := h, port := p, path := ''/''\<rparr>)
      | _ \<Rightarrow>
     (case sscanf url [Lit ''http://'', NotSet ''/''] of
        [VStr h] \<Rightarrow> Some (request\<lparr>host := h, port := 80, path := ''/''\<rparr>)
      | _ \<Rightarrow> None))))"

text \<open>\<open>extract_ssl_url\<close>: \<open>host:port\<close>, or a bare host with port 443.\<close>

definition extract_ssl_url :: "string \<Rightarrow> request_s \<Rightarrow> request_s option" where
  "extract_ssl_url url request =
     (case sscanf url [NotSet '':'', Lit '':'', ConvHU] of
        [VStr h, VShort p] \<Rightarrow> Some (request\<lparr>host := h, port := p\<rparr>)
      | _ \<Rightarrow>
     (case sscanf url [ConvS] of
        [VStr h] \<Rightarrow> Some (request\<lparr>host := h, port := 443\<rparr>)
      | _ \<Rightarrow> None))"


section \<open>Configuration, collaborators and the connection\<close>

text \<open>
  The configuration that \<open>reqs.c\<close> reads and the collaborators it calls, for
  one connection.  The optional features (upstream, tunnel, filter,
  X-Tinyproxy) are compiled in; a feature is off when it is not configured.
  \<open>MAXBUFFSIZE\<close>, \<open>PACKAGE\<close> and \<open>VERSION\<close> are macros of headers outside
  \<open>reqs.c\<close>, so they are parameters.  \<open>uninitialised\<close> is the C string
  that a buffer fresh from \<open>safemalloc\<close> happens to hold: what the code
  reads where it reads a buffer it never wrote.
\<close>

record env =
  MAXBUFFSIZE :: nat
  PACKAGE :: string
  VERSION :: string
  idletimeout :: nat
  upstream_name :: "string option"
  upstream_port :: int
  tunnel_name :: "string option"
  tunnel_port :: int
  stathost :: "string option"
  filter_on :: bool
  filter_url :: "string \<Rightarrow> bool"
  check_acl :: int
  opensock :: "string \<Rightarrow> int \<Rightarrow> int"
  is_anonymous_enabled :: bool
  anonymous_search :: "string \<Rightarrow> int"
  my_domain :: "string option"
  peer_ip :: string
  hostname :: string
  uninitialised :: string

definition HTTP_LINE_LENGTH :: "env \<Rightarrow> nat" where
  "HTTP_LINE_LENGTH env = MAXBUFFSIZE env div 6"

definition UPSTREAM_CONFIGURED :: "env \<Rightarrow> bool" where
  "UPSTREAM_CONFIGURED env = (upstream_name env \<noteq> None \<and> upstream_port env \<noteq> -1)"

definition TUNNEL_CONFIGURED :: "env \<Rightarrow> bool" where
  "TUNNEL_CONFIGURED env = (tunnel_name env \<noteq> None \<and> tunnel_port env \<noteq> -1)"

text \<open>
  What reaches the client: bytes, or a page rendered by a collaborator
  (\<open>httperr\<close>, \<open>showstats\<close>) whose layout is outside \<open>reqs.c\<close>.
\<close>

datatype client_wr = Bytes string | ErrorBody nat string | StatsPage

text \<open>
  \<open>struct conn_s\<close> together with the part of the world the connection
  touches: the bytes still to come from either peer, the writes made to either
  socket in order (one entry per write call), the hosts dialled, whether a
  write to a socket succeeds, and how many bytes the kernel hands to each
  successive blocking read of the client (at least one; a read gets all it
  asks for once the list is used up).
\<close>

record conn_s =
  client_in :: string
  client_out :: "client_wr list"
  server_fd :: int
  server_in :: string
  server_out :: "string list"
  cbuffer :: string
  sbuffer :: string
  request_line :: string
  connect_method :: bool
  response_message_sent :: bool
  protocol_major :: "32 word"
  protocol_minor :: "32 word"
  dialed :: "(string \<times> int) list"
  client_reads :: "nat list"
  client_wr_ok :: bool
  server_wr_ok :: bool

text \<open>\<open>initialize_conn\<close>: no server yet, both flags clear, version 0.0.\<close>

definition initialize_conn :: "string \<Rightarrow> string \<Rightarrow> nat list \<Rightarrow> bool \<Rightarrow> bool \<Rightarrow> conn_s" where
  "initialize_conn from_client from_server reads cok sok =
     \<lparr>client_in = from_client, client_out = [], server_fd = -1, server_in = from_server,
      server_out = [], cbuffer = [], sbuffer = [], request_line = [],
      connect_method = False, response_message_sent = False,
      protocol_major = 0, protocol_minor = 0, dialed = [],
      client_reads = reads, client_wr_ok = cok, server_wr_ok = sok\<rparr>"

text \<open>
  \<open>safe_write\<close> and \<open>write_message\<close> on the server socket and on the
  client socket: the whole text in one write, or \<open>-1\<close>.
\<close>

definition write_server :: "conn_s \<Rightarrow> string \<Rightarrow> int \<times> conn_s" where
  "write_server c s =
     (if server_fd c < 0 \<or> \<not> server_wr_ok c then (-1, c)
      else (int (length s), c\<lparr>server_out := server_out c @ [s]\<rparr>))"

definition write_client :: "conn_s \<Rightarrow> string \<Rightarrow> int \<times> conn_s" where
  "write_client c s =
     (if \<not> client_wr_ok c then (-1, c)
      else (int (length s), c\<lparr>client_out := client_out c @ [Bytes s]\<rparr>))"

text \<open>
  Modelled from the spec: \<open>httperr\<close> of utils.c, which is not in \<open>reqs.c\<close>.
  It renders an HTTP error body for the client and sets
  \<open>response_message_sent\<close>; that flag is the gate, so that at most one error
  body is written per connection.
\<close>

definition httperr :: "conn_s \<Rightarrow> nat \<Rightarrow> string \<Rightarrow> conn_s" where
  "httperr c code msg =
     (if response_message_sent c then c
      else c\<lparr>client_out := client_out c @ [ErrorBody code msg], response_message_sent := True\<rparr>)"

text \<open>Modelled from the spec: \<open>showstats\<close> of stats.c renders the stathost page.\<close>

definition showstats :: "conn_s \<Rightarrow> conn_s" where
  "showstats c = c\<lparr>client_out := client_out c @ [StatsPage]\<rparr>"

text \<open>
  Modelled from the spec: \<open>readline\<close> of sock.c, which is not in \<open>reqs.c\<close>.
  It returns the bytes up to and including the next newline (all that is
  left when the peer closes first) together with the rest of the stream:
  \<open>Line\<close>, a positive length in C.  When the peer closed before any byte
  the result is \<open>Eof\<close>, the length 0.  A line longer than
  \<open>HTTP_LINE_LENGTH\<close> is the hard error \<open>Failed\<close>, a negative return value.
\<close>

datatype line_read = Line string string | Eof | Failed

definition readline :: "env \<Rightarrow> string \<Rightarrow> line_read" where
  "readline env inp =
     (let l = takeWhile (\<lambda>c. c \<noteq> CHR 0x0A) inp;
          line = take (Suc (length l)) inp
      in if inp = [] then Eof
         else if HTTP_LINE_LENGTH env < length line then Failed
         else Line line (drop (length line) inp))"

text \<open>
  Modelled from the spec: \<open>chomp\<close> of utils.c, which is not in \<open>reqs.c\<close>.
  It strips the carriage returns and newlines that end the buffer, so that a
  line of terminators only becomes empty.  \<open>cstr\<close> is the C string that
  starts a buffer: the bytes before the first NUL.
\<close>

definition chomp :: "string \<Rightarrow> string" where
  "chomp s = rev (dropWhile (\<lambda>c. c = CHR 0x0D \<or> c = CHR 0x0A) (rev s))"

definition cstr :: "string \<Rightarrow> string" where
  "cstr s = takeWhile (\<lambda>c. c \<noteq> NUL) s"

definition CHECK_CRLF :: "string \<Rightarrow> bool" where
  "CHECK_CRLF header = (header = [CHR 0x0A] \<or> header = [CHR 0x0D, CHR 0x0A])"

text \<open>
  \<open>read_request_line\<close>: the first line that is more than line terminators,
  with what is left of the stream.  The source keeps the result of
  \<open>readline\<close> in a \<open>size_t\<close>, so its test \<open>len <= 0\<close> holds for the
  length 0 only: \<open>Eof\<close> gives the return value \<open>-1\<close> (\<open>NoLine\<close>), while
  after \<open>Failed\<close> the code goes on to \<open>chomp\<close> a buffer that was never
  filled, with a length near \<open>SIZE_MAX\<close>.  What it does then is not defined
  by the C language: \<open>Garbage\<close>.
\<close>

datatype request_read = GotLine string string | NoLine string | Garbage

function read_request_line_from :: "env \<Rightarrow> string \<Rightarrow> request_read" where
  "read_request_line_from env inp =
     (case readline env inp of
        Eof \<Rightarrow> NoLine inp
      | Failed \<Rightarrow> Garbage
      | Line line rest \<Rightarrow>
          if chomp line = [] then read_request_line_from env rest
          else GotLine (cstr (chomp line)) rest)"
  by pat_completeness auto
termination
  by (relation "measure (\<lambda>(env, inp). length inp)")
     (auto simp: readline_def Let_def split: if_splits)

declare read_request_line_from.simps [simp del]

text \<open>\<open>None\<close> is the undefined behaviour after a failed \<open>readline\<close>.\<close>

definition read_request_line :: "env \<Rightarrow> conn_s \<Rightarrow> (int \<times> conn_s) option" where
  "read_request_line env c =
     (case read_request_line_from env (client_in c) of
        NoLine rest \<Rightarrow> Some (-1, c\<lparr>client_in := rest, request_line := []\<rparr>)
      | Garbage \<Rightarrow> None
      | GotLine line rest \<Rightarrow> Some (0, c\<lparr>client_in := rest, request_line := line\<rparr>))"

text \<open>
  \<open>process_request\<close>.  \<open>None\<close> is the \<open>NULL\<close> it returns.  The part after
  the URL is parsed (filter, stathost, protocol version) is
  \<open>process_request_gates\<close>.  Where the line has no third token the protocol
  buffer is never written, and the code goes on to read it: it holds
  \<open>uninitialised env\<close>.
\<close>

fun the_str :: "scanval \<Rightarrow> string" where
  "the_str (VStr s) = s"
| "the_str _ = []"

definition scan_version :: "string \<Rightarrow> conn_s \<Rightarrow> conn_s" where
  "scan_version proto c =
     (case sscanf proto [Lit ''HTTP/'', ConvU, Lit ''.'', ConvU] of
        [VUInt a] \<Rightarrow> c\<lparr>protocol_major := a\<rparr>
      | [VUInt a, VUInt b] \<Rightarrow> c\<lparr>protocol_major := a, protocol_minor := b\<rparr>
      | _ \<Rightarrow> c)"

definition process_request_gates :: "env \<Rightarrow> conn_s \<Rightarrow> request_s \<Rightarrow> request_s option \<times> conn_s" where
  "process_request_gates env c request =
     (if filter_on env \<and> filter_url env (host request)
      then (None, httperr c 404 ''Connection to filtered domain is now allowed.'')
      else if stathost env = Some (host request)
      then (None, showstats c)
      else if strncaseeq (protocol request) ''http'' 4
      then (let proto = memcpy (protocol request) ''HTTP'' 4
            in (Some (request\<lparr>protocol := proto\<rparr>), scan_version proto c))
      else (Some request, c))"

text \<open>The tokens that \<open>"%[^ ] %[^ ] %[^ ]"\<close> assigns: method, url, protocol.\<close>

definition request_tokens :: "string \<Rightarrow> scanval list" where
  "request_tokens line = sscanf line [NotSet '' '', WS, NotSet '' '', WS, NotSet '' '']"

definition process_request :: "env \<Rightarrow> conn_s \<Rightarrow> request_s option \<times> conn_s" where
  "process_request env c =
     (let vals = request_tokens (request_line c)
      in if length vals < 2
         then (None, httperr c 400 ''Bad Request. No request found.'')
         else
           (let request = \<lparr>method = the_str (vals ! 0),
                           protocol = (if length vals < 3 then uninitialised env
                                       else the_str (vals ! 2)),
                           host = [], port = 0, path = []\<rparr>;
                url = the_str (vals ! 1)
            in if strncaseeq url ''http://'' 7
               then (case extract_http_url (memcpy url ''http'' 4) request of
                       None \<Rightarrow> (None, httperr c 400 ''Bad Request. Could not parse URL.'')
                     | Some request' \<Rightarrow> process_request_gates env c request')
               else if method request = ''CONNECT''
               then (case extract_ssl_url url request of
                       None \<Rightarrow> (None, httperr c 400 ''Bad Request. Could not parse URL.'')
                     | Some request' \<Rightarrow>
                         process_request_gates env (c\<lparr>connect_method := True\<rparr>) request')
               else (None, httperr c 400 ''Bad Request. Unknown URL type.'')))"

section \<open>Connecting and the request head\<close>

text \<open>\<open>establish_http_connection\<close>: request line, Host, Connection: close.\<close>

definition CRLF :: string where
  "CRLF = [CHR 0x0D, CHR 0x0A]"

definition establish_http_connection :: "conn_s \<Rightarrow> request_s \<Rightarrow> int \<times> conn_s" where
  "establish_http_connection c request =
     (case write_server c (method request @ '' '' @ path request @ '' HTTP/1.0'' @ CRLF) of
        (r1, c1) \<Rightarrow>
     if r1 < 0 then (-1, c1) else
     (case write_server c1 (''Host: '' @ host request @ CRLF) of
        (r2, c2) \<Rightarrow>
     if r2 < 0 then (-1, c2) else
     (case write_server c2 (''Connection: close'' @ CRLF) of
        (r3, c3) \<Rightarrow>
     if r3 < 0 then (-1, c3) else (0, c3))))"

text \<open>Dialling: \<open>opensock\<close> with the call recorded.\<close>

definition dial :: "env \<Rightarrow> conn_s \<Rightarrow> string \<Rightarrow> int \<Rightarrow> conn_s" where
  "dial env c h p = c\<lparr>server_fd := opensock env h p, dialed := dialed c @ [(h, p)]\<rparr>"

text \<open>
  \<open>connect_to_upstream\<close>.  The rewritten path is what \<open>snprintf\<close> leaves in
  \<open>combined_string\<close>, with the size argument \<open>len\<close> of the source.
\<close>

definition upstream_path :: "bool \<Rightarrow> request_s \<Rightarrow> string" where
  "upstream_path is_connect request =
     (if is_connect
      then snprintf (length (host request) + 6)
             (host request @ '':'' @ dec (unat (port request)))
      else snprintf (length (host request) + length (path request) + 14)
             (''http://'' @ host request @ '':'' @ dec (unat (port request)) @ path request))"

definition connect_to_upstream :: "env \<Rightarrow> conn_s \<Rightarrow> request_s \<Rightarrow> int \<times> conn_s" where
  "connect_to_upstream env c request =
     (let c1 = dial env c (the (upstream_name env)) (upstream_port env)
      in if server_fd c1 < 0
         then (-1, httperr c1 404 ''Unable to connect to upstream proxy.'')
         else establish_http_connection c1
                (request\<lparr>path := upstream_path (connect_method c1) request\<rparr>))"

text \<open>\<open>connect_to_tunnel\<close>; the peeked request is only logged.\<close>

definition connect_to_tunnel :: "env \<Rightarrow> conn_s \<Rightarrow> int \<times> conn_s" where
  "connect_to_tunnel env c =
     (let c1 = dial env c (the (tunnel_name env)) (tunnel_port env)
      in if server_fd c1 < 0
         then (-1, httperr c1 404 ''Unable to connect to tunnel.'')
         else (0, c1))"

section \<open>The header map\<close>

text \<open>
  Modelled from the spec: the header map of hashmap.c, which is not in
  \<open>reqs.c\<close>.  It holds the entries in insertion order, several per name if
  the client repeats one, under the lowercased name; lookup is
  case-insensitive and gives the first match; removal by key deletes every
  entry of that name; the keys are enumerated in insertion order.
  \<open>hashmap_search\<close> returning \<open>Some\<close> is a positive length in C.
\<close>

type_synonym hashmap = "(string \<times> string) list"

definition hashmap_insert :: "hashmap \<Rightarrow> string \<Rightarrow> string \<Rightarrow> hashmap" where
  "hashmap_insert m k v = m @ [(map tolower k, v)]"

definition hashmap_search :: "hashmap \<Rightarrow> string \<Rightarrow> string option" where
  "hashmap_search m k =
     (case filter (\<lambda>e. strcaseeq (fst e) k) m of [] \<Rightarrow> None | e # _ \<Rightarrow> Some (snd e))"

definition hashmap_remove :: "hashmap \<Rightarrow> string \<Rightarrow> hashmap" where
  "hashmap_remove m k = filter (\<lambda>e. \<not> strcaseeq (fst e) k) m"

definition hashmap_keys :: "hashmap \<Rightarrow> string list" where
  "hashmap_keys m = map fst m"

section \<open>Client headers\<close>

text \<open>
  \<open>add_header_to_connection\<close>: the name is what precedes the first colon,
  the value what follows the run of colons, spaces and tabs after it.
\<close>

definition add_header_to_connection :: "hashmap \<Rightarrow> string \<Rightarrow> hashmap option" where
  "add_header_to_connection m header =
     (let h = cstr (chomp header)
      in if CHR '':'' \<notin> set h then None
         else (let name = takeWhile (\<lambda>c. c \<noteq> CHR '':'') h;
                   data = dropWhile (\<lambda>c. c = CHR '':'' \<or> c = CHR '' '' \<or> c = CHR 0x09)
                            (drop (length name) h)
               in Some (hashmap_insert m name data)))"

text \<open>
  \<open>get_all_headers\<close>, with what is left of the client's stream.  \<open>None\<close> is
  the return value \<open>-1\<close>; here the result of \<open>readline\<close> is kept in an
  \<open>ssize_t\<close>, so \<open>len <= 0\<close> holds for \<open>Eof\<close> and for \<open>Failed\<close>.
\<close>

function get_all_headers :: "env \<Rightarrow> hashmap \<Rightarrow> string \<Rightarrow> hashmap option \<times> string" where
  "get_all_headers env m inp =
     (case readline env inp of
        Eof \<Rightarrow> (None, inp)
      | Failed \<Rightarrow> (None, inp)
      | Line header rest \<Rightarrow>
          if CHECK_CRLF header then (Some m, rest)
          else (case add_header_to_connection m header of
                  None \<Rightarrow> (None, rest)
                | Some m' \<Rightarrow> get_all_headers env m' rest))"
  by pat_completeness auto
termination
  by (relation "measure (\<lambda>(env, m, inp). length inp)")
     (auto simp: readline_def Let_def split: if_splits)

declare get_all_headers.simps [simp del]

text \<open>
  \<open>remove_connection_headers\<close>.  The first loop overwrites every special
  character of the value with NUL.  The second walks the \<open>len\<close> bytes of the
  buffer (the value and its terminating NUL): it removes the string at
  \<open>ptr\<close>, steps over it and its NUL, then over further NULs.  \<open>rest\<close> is the
  part of the buffer from \<open>ptr\<close> on, so \<open>ptr < data + len\<close> is
  \<open>rest \<noteq> []\<close>; what the last step reads beyond the buffer does not change
  the result, since the loop ends as soon as \<open>ptr\<close> is past it.  The buffer
  is the value as the map held it when the walk began: a token that names
  Connection itself removes the entry the buffer belongs to, and the walk
  goes on over the bytes as they were.
\<close>

definition specials :: string where
  "specials = ''()<>@,;:'' @ [CHR 0x5C, CHR 0x22] @ ''/[]?={} '' @ [CHR 0x09]"

definition blank_specials :: "string \<Rightarrow> string" where
  "blank_specials data = map (\<lambda>c. if c \<in> set specials then NUL else c) data"

function remove_tokens :: "hashmap \<Rightarrow> string \<Rightarrow> hashmap" where
  "remove_tokens m rest =
     (if rest = [] then m
      else (let tok = takeWhile (\<lambda>c. c \<noteq> NUL) rest
            in remove_tokens (hashmap_remove m tok)
                 (dropWhile (\<lambda>c. c = NUL) (drop (Suc (length tok)) rest))))"
  by pat_completeness auto
termination
proof (relation "measure (\<lambda>(m, rest). length rest)")
  show "wf (measure (\<lambda>(m, rest). length rest))" by simp
next
  fix m :: hashmap and rest :: string and tok :: string
  assume "rest \<noteq> []"
  then have "length (drop (Suc (length tok)) rest) < length rest"
    by (cases rest) auto
  moreover have "length (dropWhile (\<lambda>c. c = NUL) (drop (Suc (length tok)) rest))
                   \<le> length (drop (Suc (length tok)) rest)"
    by (rule length_dropWhile_le)
  ultimately show "((hashmap_remove m tok,
             dropWhile (\<lambda>c. c = NUL) (drop (Suc (length tok)) rest)), (m, rest))
           \<in> measure (\<lambda>(m, rest). length rest)"
    by simp
qed

declare remove_tokens.simps [simp del]

definition remove_connection_headers :: "hashmap \<Rightarrow> string \<Rightarrow> hashmap" where
  "remove_connection_headers m data = remove_tokens m (blank_specials data @ [NUL])"

text \<open>\<open>atol\<close>: white space, an optional sign, digits; 0 without digits.\<close>

definition atol :: "string \<Rightarrow> int" where
  "atol s =
     (case scan_unsigned (dropWhile isspace s) of
        None \<Rightarrow> 0
      | Some (neg, n, rest) \<Rightarrow> strtol neg n)"

text \<open>
  \<open>safe_read\<close> on the client socket, asking for \<open>n\<close> bytes: the bytes read
  and the connection after the read.  No bytes is the return value 0 (the
  peer closed, or \<open>n\<close> is 0); a failed read is treated by every caller like
  that.
\<close>

definition read_count :: "conn_s \<Rightarrow> nat \<Rightarrow> nat" where
  "read_count c n = (case client_reads c of [] \<Rightarrow> n | d # ds \<Rightarrow> min n (max 1 d))"

definition safe_read_bytes :: "conn_s \<Rightarrow> nat \<Rightarrow> string" where
  "safe_read_bytes c n = take (read_count c n) (client_in c)"

definition safe_read_conn :: "conn_s \<Rightarrow> nat \<Rightarrow> conn_s" where
  "safe_read_conn c n =
     c\<lparr>client_in := drop (read_count c n) (client_in c), client_reads := tl (client_reads c)\<rparr>"

text \<open>
  \<open>pull_client_data\<close>: the body of the \<open>do ... while (length > 0)\<close> loop
  runs before the test.
\<close>

function pull_client_data :: "env \<Rightarrow> conn_s \<Rightarrow> nat \<Rightarrow> int \<times> conn_s" where
  "pull_client_data env c len =
     (let buffer = safe_read_bytes c (min (MAXBUFFSIZE env) len);
          c1 = safe_read_conn c (min (MAXBUFFSIZE env) len)
      in if length buffer \<le> 0 then (-1, c1)
         else (case (if \<not> response_message_sent c1 then write_server c1 buffer else (0, c1)) of
                 (w, c2) \<Rightarrow>
                   if w < 0 then (-1, c2)
                   else if len - length buffer > 0
                        then pull_client_data env c2 (len - length buffer)
                        else (0, c2)))"
  by pat_completeness auto
termination
  by (relation "measure (\<lambda>(env, c, len). len)") auto

declare pull_client_data.simps [simp del]

text \<open>
  The steps of \<open>process_client_headers\<close> on the collected map, in the order
  of the source: the Connection header and the names it lists, the Via
  line, \<open>skipheaders\<close>, and the lines of the headers that remain.
\<close>

definition connection_step :: "hashmap \<Rightarrow> hashmap" where
  "connection_step m =
     (case hashmap_search m ''connection'' of
        Some data \<Rightarrow> hashmap_remove (remove_connection_headers m data) ''connection''
      | None \<Rightarrow> m)"

definition via_line :: "env \<Rightarrow> conn_s \<Rightarrow> string option \<Rightarrow> string" where
  "via_line env c old =
     ''Via: '' @ (case old of Some data \<Rightarrow> data @ '', '' | None \<Rightarrow> [])
       @ dec (unat (ucast (protocol_major c) :: 16 word)) @ ''.''
       @ dec (unat (ucast (protocol_minor c) :: 16 word)) @ '' ''
       @ hostname env @ '' ('' @ PACKAGE env @ ''/'' @ VERSION env @ '')'' @ CRLF"

definition skipheaders :: "string list" where
  "skipheaders = [''host'', ''connection'', ''keep-alive'', ''proxy-authenticate'',
     ''proxy-authorization'', ''te'', ''trailers'', ''transfer-encoding'', ''upgrade'']"

definition via_step :: "hashmap \<Rightarrow> hashmap" where
  "via_step m = (case hashmap_search m ''via'' of Some data \<Rightarrow> hashmap_remove m ''via'' | None \<Rightarrow> m)"

definition remaining_headers :: "hashmap \<Rightarrow> hashmap" where
  "remaining_headers m = foldl hashmap_remove (via_step (connection_step m)) skipheaders"

definition header_lines :: "env \<Rightarrow> hashmap \<Rightarrow> string list" where
  "header_lines env m =
     concat (map (\<lambda>data.
        if \<not> is_anonymous_enabled env \<or> anonymous_search env data = 0
        then [data @ '': '' @ (case hashmap_search m data of Some header \<Rightarrow> header | None \<Rightarrow> [])
                @ CRLF]
        else []) (hashmap_keys m))"

definition write_all :: "conn_s \<Rightarrow> string list \<Rightarrow> conn_s" where
  "write_all c ls = foldl (\<lambda>c' l. snd (write_server c' l)) c ls"

definition add_xtinyproxy_header :: "env \<Rightarrow> conn_s \<Rightarrow> conn_s" where
  "add_xtinyproxy_header env c =
     (if server_fd c = -1 then c
      else snd (write_server c (''X-Tinyproxy: '' @ peer_ip env @ CRLF)))"

definition process_client_headers :: "env \<Rightarrow> conn_s \<Rightarrow> int \<times> conn_s" where
  "process_client_headers env c =
     (case get_all_headers env [] (client_in c) of
        (None, rest) \<Rightarrow> (-1, c\<lparr>client_in := rest\<rparr>)
      | (Some hashofheaders, rest) \<Rightarrow>
          (let c0 = c\<lparr>client_in := rest\<rparr>
           in if server_fd c0 = -1 \<or> (connect_method c0 \<and> \<not> UPSTREAM_CONFIGURED env)
              then (0, c0)
              else
                (let m1 = connection_step hashofheaders;
                     content_length = (case hashmap_search m1 ''content-length'' of
                                         Some data \<Rightarrow> atol data | None \<Rightarrow> -1);
                     c1 = snd (write_server c0 (via_line env c0 (hashmap_search m1 ''via'')));
                     c2 = write_all c1 (header_lines env (remaining_headers hashofheaders));
                     c3 = (if my_domain env \<noteq> None then add_xtinyproxy_header env c2 else c2);
                     c4 = snd (write_server c3 CRLF)
                 in if content_length \<ge> 0
                    then pull_client_data env c4 (nat content_length)
                    else (0, c4))))"

section \<open>The response head\<close>

text \<open>\<open>process_server_headers\<close>: the server's lines go to the client up to the blank one.\<close>

function process_server_headers :: "env \<Rightarrow> conn_s \<Rightarrow> int \<times> conn_s" where
  "process_server_headers env c =
     (case readline env (server_in c) of
        Eof \<Rightarrow> (-1, c)
      | Failed \<Rightarrow> (-1, c)
      | Line header rest \<Rightarrow>
          (case write_client (c\<lparr>server_in := rest\<rparr>) header of
             (w, c1) \<Rightarrow>
               if w < 0 then (-1, c1)
               else if CHECK_CRLF header then (0, c1)
               else process_server_headers env c1))"
  by pat_completeness auto
termination
  by (relation "measure (\<lambda>(env, c). length (server_in c))")
     (auto simp: readline_def write_client_def Let_def split: if_splits)

declare process_server_headers.simps [simp del]

definition SSL_CONNECTION_RESPONSE :: string where
  "SSL_CONNECTION_RESPONSE = ''HTTP/1.0 200 Connection established'' @ CRLF"

definition PROXY_AGENT :: "env \<Rightarrow> string" where
  "PROXY_AGENT env = ''Proxy-agent: '' @ PACKAGE env @ ''/'' @ VERSION env @ CRLF"

definition send_ssl_response :: "env \<Rightarrow> conn_s \<Rightarrow> int \<times> conn_s" where
  "send_ssl_response env c =
     (case write_client c SSL_CONNECTION_RESPONSE of
        (r1, c1) \<Rightarrow>
     if r1 < 0 then (-1, c1) else
     (case write_client c1 (PROXY_AGENT env) of
        (r2, c2) \<Rightarrow>
     if r2 < 0 then (-1, c2) else
     (case write_client c2 CRLF of
        (r3, c3) \<Rightarrow>
     if r3 < 0 then (-1, c3) else (0, c3))))"

section \<open>The relay\<close>

text \<open>
  The two legs of a connection name its sockets (\<open>client_fd\<close>,
  \<open>server_fd\<close>) and its buffers (\<open>cbuffer\<close>, \<open>sbuffer\<close>).
\<close>

datatype leg = Client | Server

definition get_buffer :: "leg \<Rightarrow> conn_s \<Rightarrow> string" where
  "get_buffer b c = (case b of Client \<Rightarrow> cbuffer c | Server \<Rightarrow> sbuffer c)"

definition set_buffer :: "leg \<Rightarrow> string \<Rightarrow> conn_s \<Rightarrow> conn_s" where
  "set_buffer b s c = (case b of Client \<Rightarrow> c\<lparr>cbuffer := s\<rparr> | Server \<Rightarrow> c\<lparr>sbuffer := s\<rparr>)"

definition BUFFER_SIZE :: "leg \<Rightarrow> conn_s \<Rightarrow> nat" where
  "BUFFER_SIZE b c = length (get_buffer b c)"

definition incoming :: "leg \<Rightarrow> conn_s \<Rightarrow> string" where
  "incoming fd c = (case fd of Client \<Rightarrow> client_in c | Server \<Rightarrow> server_in c)"

definition consume :: "leg \<Rightarrow> nat \<Rightarrow> conn_s \<Rightarrow> conn_s" where
  "consume fd n c =
     (case fd of Client \<Rightarrow> c\<lparr>client_in := drop n (client_in c)\<rparr>
               | Server \<Rightarrow> c\<lparr>server_in := drop n (server_in c)\<rparr>)"

definition emit :: "leg \<Rightarrow> string \<Rightarrow> conn_s \<Rightarrow> conn_s" where
  "emit fd s c =
     (case fd of Client \<Rightarrow> c\<lparr>client_out := client_out c @ [Bytes s]\<rparr>
               | Server \<Rightarrow> c\<lparr>server_out := server_out c @ [s]\<rparr>)"

text \<open>
  Modelled from the spec: \<open>read_buffer\<close> and \<open>write_buffer\<close> of buffer.c,
  which is not in \<open>reqs.c\<close>.  A buffer is a FIFO of at most
  \<open>MAXBUFFSIZE\<close> bytes.  \<open>read_buffer\<close> appends what the socket delivers,
  as far as there is room, and returns \<open>-1\<close> when the read fails or the peer
  has closed.  \<open>write_buffer fd buf\<close> writes a prefix of buffer \<open>buf\<close> to
  socket \<open>fd\<close> and advances the buffer by it, or returns \<open>-1\<close>.
\<close>

definition read_buffer :: "env \<Rightarrow> leg \<Rightarrow> leg \<Rightarrow> nat option \<Rightarrow> conn_s \<Rightarrow> int \<times> conn_s" where
  "read_buffer env fd buf delivered c =
     (case delivered of
        None \<Rightarrow> (-1, c)
      | Some k \<Rightarrow>
          if incoming fd c = [] then (-1, c)
          else (let bytes = take (min k (MAXBUFFSIZE env - BUFFER_SIZE buf c)) (incoming fd c)
                in (int (length bytes),
                    set_buffer buf (get_buffer buf c @ bytes) (consume fd (length bytes) c))))"

definition write_buffer :: "leg \<Rightarrow> leg \<Rightarrow> nat option \<Rightarrow> conn_s \<Rightarrow> int \<times> conn_s" where
  "write_buffer fd buf accepted c =
     (case accepted of
        None \<Rightarrow> (-1, c)
      | Some k \<Rightarrow>
          (let bytes = take k (get_buffer buf c)
           in (int (length bytes),
               set_buffer buf (drop (length bytes) (get_buffer buf c)) (emit fd bytes c))))"

text \<open>
  One return of \<open>select\<close>: the clock when the timeout is computed, the
  result of \<open>select\<close> for the timeout it is given, the clock when it
  returns, the sockets it reports ready, and what the reads and writes of
  this iteration then deliver and accept.  The clock counts whole seconds,
  as \<open>time\<close> does, so \<open>difftime\<close> is the integer difference.
\<close>

record select_ev =
  now_before :: int
  sel :: "int \<Rightarrow> int"
  now_after :: int
  rd_server :: bool
  rd_client :: bool
  wr_server :: bool
  wr_client :: bool
  from_server :: "nat option"
  from_client :: "nat option"
  to_server :: "nat option"
  to_client :: "nat option"

definition select_timeout :: "env \<Rightarrow> select_ev \<Rightarrow> int \<Rightarrow> int" where
  "select_timeout env ev last_access = int (idletimeout env) - (now_before ev - last_access)"

text \<open>
  The four transfers of an iteration after \<open>select\<close> reported activity.
  The sets tested are those filled before \<open>select\<close>, from the buffer sizes
  at the top of the loop.  \<open>True\<close> is a \<open>break\<close>.
\<close>

definition relay_io :: "env \<Rightarrow> select_ev \<Rightarrow> conn_s \<Rightarrow> bool \<times> conn_s" where
  "relay_io env ev c =
     (let isset_wr_client = (BUFFER_SIZE Server c > 0 \<and> wr_client ev);
          isset_wr_server = (BUFFER_SIZE Client c > 0 \<and> wr_server ev);
          isset_rd_server = (BUFFER_SIZE Server c < MAXBUFFSIZE env \<and> rd_server ev);
          isset_rd_client = (BUFFER_SIZE Client c < MAXBUFFSIZE env \<and> rd_client ev)
      in
      (case (if isset_rd_server then read_buffer env Server Server (from_server ev) c else (0, c)) of
         (r1, c1) \<Rightarrow>
      if r1 < 0 then (True, c1) else
      (case (if isset_rd_client then read_buffer env Client Client (from_client ev) c1 else (0, c1)) of
         (r2, c2) \<Rightarrow>
      if r2 < 0 then (True, c2) else
      (case (if isset_wr_server then write_buffer Server Client (to_server ev) c2 else (0, c2)) of
         (r3, c3) \<Rightarrow>
      if r3 < 0 then (True, c3) else
      (case (if isset_wr_client then write_buffer Client Server (to_client ev) c3 else (0, c3)) of
         (r4, c4) \<Rightarrow>
      if r4 < 0 then (True, c4) else (False, c4))))))"

text \<open>
  The \<open>for (;;)\<close> loop over the returns of \<open>select\<close>.  It leaves by a
  \<open>return\<close> (idle timeout, \<open>select\<close> error) or by a \<open>break\<close>; \<open>None\<close>
  is a loop still running when the events are used up.
\<close>

datatype loop_exit = IdleTimeout | SelectError | Break

fun relay_loop :: "env \<Rightarrow> select_ev list \<Rightarrow> int \<Rightarrow> conn_s \<Rightarrow> (loop_exit \<times> conn_s) option" where
  "relay_loop env [] last_access c = None"
| "relay_loop env (ev # evs) last_access c =
     (let ret = sel ev (select_timeout env ev last_access)
      in if ret = 0
         then (if now_after ev - last_access > int (idletimeout env)
               then Some (IdleTimeout, c)
               else relay_loop env evs last_access c)
         else if ret < 0 then Some (SelectError, c)
         else (case relay_io env ev c of
                 (True, c') \<Rightarrow> Some (Break, c')
               | (False, c') \<Rightarrow> relay_loop env evs (now_after ev) c'))"

text \<open>
  The two loops after the \<open>break\<close>, on blocking sockets:
  \<open>while (BUFFER_SIZE(buf) > 0) if (write_buffer(fd, buf) < 0) break;\<close>.
  Each write takes what the socket accepts from the list; with the list used
  up the socket takes all that is left.
\<close>

fun flush_buffer :: "leg \<Rightarrow> leg \<Rightarrow> nat option list \<Rightarrow> conn_s \<Rightarrow> nat option list \<times> conn_s" where
  "flush_buffer fd buf [] c =
     (if BUFFER_SIZE buf c > 0
      then ([], snd (write_buffer fd buf (Some (BUFFER_SIZE buf c)) c))
      else ([], c))"
| "flush_buffer fd buf (a # accepts) c =
     (if BUFFER_SIZE buf c > 0
      then (case write_buffer fd buf a c of
              (w, c') \<Rightarrow> if w < 0 then (accepts, c') else flush_buffer fd buf accepts c')
      else (a # accepts, c))"

text \<open>
  \<open>relay_connection\<close>, from the clock value \<open>t0\<close> that initialises
  \<open>last_access\<close>.  After a \<open>break\<close>, the first loop writes \<open>sbuffer\<close> to
  \<open>client_fd\<close> and the second writes \<open>cbuffer\<close> to \<open>client_fd\<close>, as in the
  source.
\<close>

definition relay_connection ::
  "env \<Rightarrow> int \<Rightarrow> select_ev list \<Rightarrow> nat option list \<Rightarrow> conn_s \<Rightarrow> conn_s option" where
  "relay_connection env t0 evs accepts c =
     (case relay_loop env evs t0 c of
        None \<Rightarrow> None
      | Some (Break, c1) \<Rightarrow>
          (case flush_buffer Client Server accepts c1 of
             (accepts', c2) \<Rightarrow> Some (snd (flush_buffer Client Client accepts' c2)))
      | Some (ex, c1) \<Rightarrow> Some c1)"

section \<open>The connection\<close>

text \<open>
  \<open>handle_connection\<close>, one function per label: \<open>relay_proxy\<close>,
  \<open>send_error\<close>, \<open>internal_proxy\<close>, and the whole.  \<open>destroy_conn\<close> closes the
  sockets: \<open>Closed\<close> with the connection as it was left.  \<open>Relaying\<close> is a
  relay still running when the events are used up, \<open>Undefined\<close> the
  undefined behaviour of \<open>read_request_line\<close>.
\<close>

datatype outcome = Closed conn_s | Relaying | Undefined

definition relay_proxy ::
  "env \<Rightarrow> int \<Rightarrow> select_ev list \<Rightarrow> nat option list \<Rightarrow> conn_s \<Rightarrow> outcome" where
  "relay_proxy env t0 evs accepts c =
     (case relay_connection env t0 evs accepts c of
        None \<Rightarrow> Relaying
      | Some c' \<Rightarrow> Closed c')"

definition send_error ::
  "env \<Rightarrow> int \<Rightarrow> select_ev list \<Rightarrow> nat option list \<Rightarrow> conn_s \<Rightarrow> outcome" where
  "send_error env t0 evs accepts c =
     (case process_client_headers env c of
        (r, c1) \<Rightarrow>
     if r < 0 \<and> \<not> response_message_sent c1 then Closed c1
     else if response_message_sent c1 then Closed c1
     else if \<not> connect_method c1 \<or> UPSTREAM_CONFIGURED env
     then (case process_server_headers env c1 of
             (r2, c2) \<Rightarrow> if r2 < 0 then Closed c2 else relay_proxy env t0 evs accepts c2)
     else (case send_ssl_response env c1 of
             (r2, c2) \<Rightarrow> if r2 < 0 then Closed c2 else relay_proxy env t0 evs accepts c2))"

definition internal_proxy ::
  "env \<Rightarrow> int \<Rightarrow> select_ev list \<Rightarrow> nat option list \<Rightarrow> conn_s \<Rightarrow> outcome" where
  "internal_proxy env t0 evs accepts c =
     (case read_request_line env c of
        None \<Rightarrow> Undefined
      | Some (r, c1) \<Rightarrow>
     if r < 0 then Closed c1 else
     (case process_request env c1 of
        (None, c2) \<Rightarrow>
          if \<not> response_message_sent c2 then Closed c2
          else send_error env t0 evs accepts c2
      | (Some request, c2) \<Rightarrow>
          if UPSTREAM_CONFIGURED env
          then send_error env t0 evs accepts (snd (connect_to_upstream env c2 request))
          else (let c3 = dial env c2 (host request) (uint (port request))
                in if server_fd c3 < 0
                   then send_error env t0 evs accepts (httperr c3 500 ''Unable to connect to remote server.'')
                   else if \<not> connect_method c3
                   then send_error env t0 evs accepts (snd (establish_http_connection c3 request))
                   else send_error env t0 evs accepts c3)))"

definition handle_connection ::
  "env \<Rightarrow> int \<Rightarrow> select_ev list \<Rightarrow> nat option list \<Rightarrow> conn_s \<Rightarrow> outcome" where
  "handle_connection env t0 evs accepts c =
     (if check_acl env \<le> 0
      then send_error env t0 evs accepts
             (httperr c 403 ''You do not have authorization for using this service.'')
      else if TUNNEL_CONFIGURED env
      then (case connect_to_tunnel env c of
              (r, c1) \<Rightarrow>
                if r < 0 then internal_proxy env t0 evs accepts c1
                else relay_proxy env t0 evs accepts c1)
      else internal_proxy env t0 evs accepts c)"

section \<open>The specification's notions\<close>

text \<open>
  The shapes of an absolute URL as the specification lists them:
  \<open>http://H:P/Pa\<close>, \<open>http://H/Pa\<close>, \<open>http://H:P\<close> and \<open>http://H\<close>, where
  \<open>H\<close> is a non-empty host without colon or slash, \<open>P\<close> a decimal port and
  \<open>Pa\<close> a path that begins with a slash; the port defaults to 80 and the
  path to \<open>/\<close>.  Any other text after \<open>http://\<close> is none of the shapes.
\<close>

definition spec_http_url :: "string \<Rightarrow> (string \<times> nat \<times> string) option" where
  "spec_http_url url =
     (if take 7 url \<noteq> ''http://'' then None
      else (let r = drop 7 url;
                h = takeWhile (\<lambda>c. c \<notin> set '':/'') r;
                r1 = drop (length h) r
            in if h = [] then None
               else (case r1 of
                       [] \<Rightarrow> Some (h, 80, ''/'')
                     | c # r2 \<Rightarrow>
                         if c = CHR ''/'' then Some (h, 80, r1)
                         else (let ds = takeWhile isdigit r2;
                                   r3 = drop (length ds) r2
                               in if ds = [] then None
                                  else (case r3 of
                                          [] \<Rightarrow> Some (h, digits_val ds, ''/'')
                                        | d # r4 \<Rightarrow>
                                            if d = CHR ''/'' then Some (h, digits_val ds, r3)
                                            else None)))))"

text \<open>
  The authority form \<open>H:P\<close> of a CONNECT target, the port defaulting to 443
  when there is none, and the targets that have this form: a host without
  white space, alone or followed by a colon and a decimal port below
  \<open>2^16\<close>.
\<close>

definition spec_authority :: "string \<Rightarrow> string \<times> nat" where
  "spec_authority url =
     (let h = takeWhile (\<lambda>c. c \<noteq> CHR '':'') url
      in case drop (length h) url of
           [] \<Rightarrow> (h, 443)
         | c # p \<Rightarrow> (h, digits_val p))"

definition is_authority :: "string \<Rightarrow> bool" where
  "is_authority url =
     (let h = takeWhile (\<lambda>c. c \<noteq> CHR '':'') url
      in h \<noteq> [] \<and> (\<forall>c \<in> set h. \<not> isspace c) \<and>
         (case drop (length h) url of
            [] \<Rightarrow> True
          | c # p \<Rightarrow> p \<noteq> [] \<and> (\<forall>d \<in> set p. isdigit d) \<and> digits_val p < 65536))"

text \<open>
  Tokenizing by a delimiter set: the maximal runs of characters that are not
  delimiters.
\<close>

function split_runs :: "(char \<Rightarrow> bool) \<Rightarrow> string \<Rightarrow> string list" where
  "split_runs delim v =
     (let v' = dropWhile delim v
      in if v' = [] then []
         else takeWhile (\<lambda>c. \<not> delim c) v' # split_runs delim (dropWhile (\<lambda>c. \<not> delim c) v'))"
  by pat_completeness auto
termination
proof (relation "measure (\<lambda>(delim, v). length v)")
  show "wf (measure (\<lambda>(delim, v). length v))" by simp
next
  fix delim :: "char \<Rightarrow> bool" and v v' :: string
  assume v': "v' = dropWhile delim v" and ne: "v' \<noteq> []"
  then have "\<not> delim (hd v')"
    using hd_dropWhile [of delim v] by simp
  with ne have "length (dropWhile (\<lambda>c. \<not> delim c) v') < length v'"
    by (cases v') (auto simp: le_imp_less_Suc length_dropWhile_le)
  moreover have "length v' \<le> length v"
    using v' by (simp add: length_dropWhile_le)
  ultimately show "((delim, dropWhile (\<lambda>c. \<not> delim c) v'), (delim, v))
      \<in> measure (\<lambda>(delim, v). length v)"
    by simp
qed

declare split_runs.simps [simp del]

definition tokenize :: "string \<Rightarrow> string list" where
  "tokenize v = split_runs (\<lambda>c. c \<in> set specials) v"

text \<open>The white-space-separated tokens of a request line.\<close>

definition spec_tokens :: "string \<Rightarrow> string list" where
  "spec_tokens line = split_runs isspace line"

text \<open>
  The head of the request that reached the server: the writes before the
  blank line.  The name of a header line is what precedes its first colon.
\<close>

definition request_head :: "conn_s \<Rightarrow> string list" where
  "request_head c = takeWhile (\<lambda>l. l \<noteq> CRLF) (server_out c)"

definition header_name :: "string \<Rightarrow> string" where
  "header_name l = takeWhile (\<lambda>c. c \<noteq> CHR '':'') l"



section \<open>Sample configurations and inputs\<close>

definition direct_env :: env where
  "direct_env =
     \<lparr>MAXBUFFSIZE = 49152, PACKAGE = ''tinyproxy'', VERSION = ''1.5.0'', idletimeout = 600,
      upstream_name = None, upstream_port = -1, tunnel_name = None, tunnel_port = -1,
      stathost = None, filter_on = False, filter_url = (\<lambda>h. False), check_acl = 1,
      opensock = (\<lambda>h p. 5), is_anonymous_enabled = False, anonymous_search = (\<lambda>k. 0),
      my_domain = None, peer_ip = ''10.0.0.1'', hostname = ''proxy'',
      uninitialised = []\<rparr>"

definition upstream_env :: env where
  "upstream_env = direct_env\<lparr>upstream_name := Some ''up'', upstream_port := 3128\<rparr>"

text \<open>A tunnel is configured and cannot be reached.\<close>

definition tunnel_down_env :: env where
  "tunnel_down_env =
     direct_env\<lparr>tunnel_name := Some ''news'', tunnel_port := 119, opensock := (\<lambda>h p. -1)\<rparr>"


definition fresh_conn :: "string \<Rightarrow> conn_s" where
  "fresh_conn inp = initialize_conn inp [] [] True True"

definition request0 :: request_s where
  "request0 = \<lparr>method = ''GET'', protocol = ''HTTP/1.0'', host = [], port = 0, path = []\<rparr>"

text \<open>
  A return of \<open>select\<close> that reports the server readable when the server has
  closed, and one that reports nothing within the timeout at clock value
  \<open>t\<close>.
\<close>

definition server_closed_ev :: select_ev where
  "server_closed_ev =
     \<lparr>now_before = 0, sel = (\<lambda>tv. 1), now_after = 0,
      rd_server = True, rd_client = False, wr_server = False, wr_client = False,
      from_server = Some 0, from_client = None, to_server = None, to_client = None\<rparr>"

definition quiet_ev :: "int \<Rightarrow> select_ev" where
  "quiet_ev t =
     \<lparr>now_before = t, sel = (\<lambda>tv. 0), now_after = t,
      rd_server = False, rd_client = False, wr_server = False, wr_client = False,
      from_server = None, from_client = None, to_server = None, to_client = None\<rparr>"

definition pending_conn :: conn_s where
  "pending_conn = (fresh_conn [])\<lparr>server_fd := 5, cbuffer := ''x''\<rparr>"

section \<open>The relay after the loop\<close>

text \<open>
  C1.  A relay that leaves its loop by a \<open>break\<close> with bytes of the client
  waiting in \<open>cbuffer\<close>: here the server has closed while one byte from the
  client is buffered.  The byte is written to the client's socket, and
  nothing reaches the server.
\<close>

theorem relay_flushes_cbuffer_to_client:
  "map_option (\<lambda>c. (client_out c, server_out c, cbuffer c))
     (relay_connection direct_env 0 [server_closed_ev] [] pending_conn)
   = Some ([Bytes ''x''], [], [])"
  by (simp add: relay_connection_def relay_io_def read_buffer_def write_buffer_def
      BUFFER_SIZE_def get_buffer_def set_buffer_def incoming_def emit_def consume_def
      select_timeout_def server_closed_ev_def pending_conn_def fresh_conn_def
      initialize_conn_def direct_env_def)

section \<open>The request body\<close>

text \<open>
  C6.  With a content length of 0, \<open>pull_client_data\<close> asks \<open>safe_read\<close> for
  0 bytes, gets none, and returns \<open>-1\<close>, whatever the connection.
\<close>

theorem pull_client_data_zero_fails:
  "fst (pull_client_data env c 0) = -1"
  by (simp add: pull_client_data.simps [of env c 0] safe_read_bytes_def read_count_def
      split: list.splits)

section \<open>The request target sent to an upstream proxy\<close>

text \<open>
  A port prints in at most five digits, so the absolute form
  \<open>http://HOST:PORT/PATH\<close> always fits the \<open>len - 1\<close> bytes that
  \<open>snprintf\<close> may store.
\<close>

lemma dec_length_le: "n < 10 ^ k \<Longrightarrow> 0 < k \<Longrightarrow> length (dec n) \<le> k"
proof (induction n arbitrary: k rule: dec.induct)
  case (1 n)
  show ?case
  proof (cases "n < 10")
    case True
    with "1.prems" show ?thesis by (subst dec.simps) simp
  next
    case False
    with "1.prems" have k2: "2 \<le> k"
      by (cases k; cases "k - 1") auto
    then obtain j where k: "k = Suc j" and j: "0 < j" by (cases k) auto
    from "1.prems" k have "n div 10 < 10 ^ j"
      by (simp add: less_mult_imp_div_less mult.commute)
    then have "length (dec (n div 10)) \<le> j"
      using j by (rule "1.IH" [OF False])
    with False k show ?thesis by (subst dec.simps) simp
  qed
qed

lemma dec_port_length: "length (dec (unat (p :: 16 word))) \<le> 5"
proof -
  have "unat p < 2 ^ 16" using unsigned_less [of p] by simp
  then have "unat p < 10 ^ 5" by simp
  then show ?thesis by (rule dec_length_le) simp
qed

lemma upstream_path_absolute:
  "upstream_path False r = ''http://'' @ host r @ '':'' @ dec (unat (port r)) @ path r"
  using dec_port_length [of "port r"] by (simp add: upstream_path_def snprintf_def)

text \<open>
  C2.  For a CONNECT request through an upstream proxy the size passed to
  \<open>snprintf\<close> is \<open>strlen(host) + 6\<close>, which leaves room for the colon and
  four digits.  With the port 10443 the target sent upstream is \<open>h:1044\<close>:
  the last digit of the port is cut off.
\<close>

theorem upstream_connect_port_truncated:
  "upstream_path True (request0\<lparr>host := ''h'', port := 10443\<rparr>) = ''h:1044'' \<and>
   server_out (snd (connect_to_upstream upstream_env
        ((fresh_conn [])\<lparr>connect_method := True\<rparr>)
        (request0\<lparr>method := ''CONNECT'', host := ''h'', port := 10443\<rparr>)))
   = [''CONNECT h:1044 HTTP/1.0'' @ CRLF, ''Host: h'' @ CRLF, ''Connection: close'' @ CRLF]"
  by (simp add: connect_to_upstream_def dial_def upstream_env_def direct_env_def fresh_conn_def
      initialize_conn_def establish_http_connection_def write_server_def request0_def
      upstream_path_def snprintf_def digit_char_def)

section \<open>The idle timeout of the relay\<close>

lemma relay_loop_quiet:
  "\<forall>ev \<in> set evs. \<forall>tv. sel ev tv = 0 \<Longrightarrow>
   \<exists>ev \<in> set evs. now_after ev - t0 > int (idletimeout env) \<Longrightarrow>
   relay_loop env evs t0 c = Some (IdleTimeout, c)"
  by (induction evs) (auto simp: Let_def)

text \<open>
  C9.  In every iteration \<open>select\<close> is given the timeout
  \<open>idletimeout - (now - last_access)\<close>.  When it returns 0 and more than
  \<open>idletimeout\<close> seconds have passed since \<open>last_access\<close>, the relay
  returns at once and leaves the connection as it is; when it returns 0
  earlier, the loop goes on with \<open>last_access\<close> unchanged; when it returns a
  positive number, the transfers run and the loop goes on with
  \<open>last_access\<close> set to the clock after \<open>select\<close>.  So on every trace
  without activity that reaches a clock value beyond the idle timeout the
  relay ends normally.
\<close>

theorem relay_idle_timeout:
  "select_timeout env ev last_access = int (idletimeout env) - (now_before ev - last_access) \<and>
   (sel ev (int (idletimeout env) - (now_before ev - last_access)) = 0 \<and>
    now_after ev - last_access > int (idletimeout env) \<longrightarrow>
      relay_loop env (ev # evs) last_access c = Some (IdleTimeout, c) \<and>
      relay_connection env last_access (ev # evs) accepts c = Some c) \<and>
   (sel ev (int (idletimeout env) - (now_before ev - last_access)) = 0 \<and>
    now_after ev - last_access \<le> int (idletimeout env) \<longrightarrow>
      relay_loop env (ev # evs) last_access c = relay_loop env evs last_access c) \<and>
   (sel ev (int (idletimeout env) - (now_before ev - last_access)) > 0 \<longrightarrow>
      relay_loop env (ev # evs) last_access c =
        (case relay_io env ev c of
           (True, c') \<Rightarrow> Some (Break, c')
         | (False, c') \<Rightarrow> relay_loop env evs (now_after ev) c')) \<and>
   ((\<forall>e \<in> set evs. \<forall>tv. sel e tv = 0) \<and>
    (\<exists>e \<in> set evs. now_after e - last_access > int (idletimeout env)) \<longrightarrow>
      relay_connection env last_access evs accepts c = Some c)"
  using relay_loop_quiet [where evs = evs and ?t0.0 = last_access and env = env and c = c]
  by (auto simp: select_timeout_def relay_connection_def Let_def)


theorem relay_idle_timeout_witness:
  "sel (quiet_ev 601) (int (idletimeout direct_env) - (now_before (quiet_ev 601) - 0)) = 0 \<and>
   now_after (quiet_ev 601) - 0 > int (idletimeout direct_env) \<and>
   relay_connection direct_env 0 [quiet_ev 601] [] pending_conn = Some pending_conn \<and>
   sel (quiet_ev 600) (int (idletimeout direct_env) - (now_before (quiet_ev 600) - 0)) = 0 \<and>
   now_after (quiet_ev 600) - 0 \<le> int (idletimeout direct_env) \<and>
   relay_loop direct_env [quiet_ev 600, quiet_ev 601] 0 pending_conn
     = relay_loop direct_env [quiet_ev 601] 0 pending_conn \<and>
   sel server_closed_ev (int (idletimeout direct_env) - (now_before server_closed_ev - 0)) > 0 \<and>
   relay_loop direct_env [server_closed_ev] 0 pending_conn = Some (Break, pending_conn)"
  using relay_idle_timeout [of direct_env "quiet_ev 601" 0 "[]" pending_conn "[]"]
        relay_idle_timeout [of direct_env "quiet_ev 600" 0 "[quiet_ev 601]" pending_conn "[]"]
        relay_idle_timeout [of direct_env server_closed_ev 0 "[]" pending_conn "[]"]
  by (simp add: quiet_ev_def direct_env_def server_closed_ev_def relay_io_def read_buffer_def
      BUFFER_SIZE_def get_buffer_def incoming_def pending_conn_def fresh_conn_def
      initialize_conn_def)


section \<open>Requests that are refused\<close>

text \<open>The definitions that a run on a concrete input unfolds.\<close>

lemmas run_defs =
  handle_connection_def internal_proxy_def send_error_def relay_proxy_def
  read_request_line_def read_request_line_from.simps readline_def HTTP_LINE_LENGTH_def
  chomp_def cstr_def NUL_def CRLF_def CHECK_CRLF_def
  process_request_def process_request_gates_def request_tokens_def scan_version_def
  extract_http_url_def extract_ssl_url_def scan_unsigned_def strtoul_def ULONG_MAX_def
  digits_val_def digit_val_def isspace_def isdigit_def tolower_def strcaseeq_def strncaseeq_def
  memcpy_def httperr_def showstats_def dial_def connect_to_tunnel_def connect_to_upstream_def
  upstream_path_def snprintf_def digit_char_def establish_http_connection_def write_server_def
  write_client_def UPSTREAM_CONFIGURED_def TUNNEL_CONFIGURED_def
  process_client_headers_def get_all_headers.simps add_header_to_connection_def
  hashmap_insert_def hashmap_search_def hashmap_remove_def hashmap_keys_def
  connection_step_def via_step_def remaining_headers_def skipheaders_def header_lines_def
  via_line_def write_all_def add_xtinyproxy_header_def atol_def strtol_def
  process_server_headers.simps send_ssl_response_def
  fresh_conn_def initialize_conn_def Let_def

lemma process_client_headers_no_server:
  "server_fd c = -1 \<Longrightarrow> \<exists>r rest. process_client_headers env c = (r, c\<lparr>client_in := rest\<rparr>)"
  by (cases "get_all_headers env [] (client_in c)")
     (auto simp: process_client_headers_def split: option.splits)

lemma process_request_bad:
  assumes "length (request_tokens (request_line c)) < 2 \<or>
           (\<not> strncaseeq (the_str (request_tokens (request_line c) ! 1)) ''http://'' 7 \<and>
            the_str (request_tokens (request_line c) ! 0) \<noteq> ''CONNECT'')"
  shows "\<exists>msg. process_request env c = (None, httperr c 400 msg)"
  using assms by (auto simp: process_request_def Let_def)

lemma refused_after_request_line:
  assumes line: "read_request_line_from env (client_in c) = GotLine line rest"
    and fd: "server_fd c = -1"
    and bad: "length (request_tokens line) < 2 \<or>
           (\<not> strncaseeq (the_str (request_tokens line ! 1)) ''http://'' 7 \<and>
            the_str (request_tokens line ! 0) \<noteq> ''CONNECT'')"
  shows "\<exists>msg rest'. internal_proxy env t0 evs accepts c
           = Closed ((httperr c 400 msg)\<lparr>client_in := rest', request_line := line\<rparr>)"
proof -
  define c1 where "c1 = c\<lparr>client_in := rest, request_line := line\<rparr>"
  have rl: "read_request_line env c = Some (0, c1)"
    using line by (simp add: read_request_line_def c1_def)
  from bad obtain msg where pr: "process_request env c1 = (None, httperr c1 400 msg)"
    using process_request_bad [of c1 env] by (auto simp: c1_def)
  define c2 where "c2 = httperr c1 400 msg"
  have sent: "response_message_sent c2" by (simp add: c2_def httperr_def)
  have "server_fd c2 = -1" using fd by (simp add: c2_def httperr_def c1_def)
  then obtain r rest' where pch: "process_client_headers env c2 = (r, c2\<lparr>client_in := rest'\<rparr>)"
    using process_client_headers_no_server by blast
  have se: "send_error env t0 evs accepts c2 = Closed (c2\<lparr>client_in := rest'\<rparr>)"
    using pch sent by (simp add: send_error_def)
  have "internal_proxy env t0 evs accepts c = Closed (c2\<lparr>client_in := rest'\<rparr>)"
    using rl pr se sent by (simp add: internal_proxy_def c2_def)
  moreover have "c2\<lparr>client_in := rest'\<rparr>
      = (httperr c 400 msg)\<lparr>client_in := rest', request_line := line\<rparr>"
    by (simp add: c2_def c1_def httperr_def)
  ultimately show ?thesis by auto
qed

text \<open>
  C8, as amended.  The peer passes the ACL and the request line is reached:
  no tunnel is configured, or the tunnel could not be dialled (then the
  client already has the 404 of that failure).  Tokens are what
  \<open>"%[^ ] %[^ ] %[^ ]"\<close> assigns, so only the space character ends one.
  When the line has fewer than two tokens, or its url does not begin with
  \<open>http://\<close> (in any case) and its method is not CONNECT, the pipeline ends
  with no server socket and nothing sent to a server; the request dials no
  host; and the client gets the 400 error body, unless it already has the
  404.
\<close>

theorem bad_request_line_refused:
  assumes acl: "0 < check_acl env"
    and tun: "TUNNEL_CONFIGURED env \<longrightarrow>
                opensock env (the (tunnel_name env)) (tunnel_port env) = -1"
    and line: "read_request_line_from env (client_in c) = GotLine line rest"
    and fresh: "\<not> response_message_sent c" "server_fd c = -1"
    and bad: "length (request_tokens line) < 2 \<or>
           (\<not> strncaseeq (the_str (request_tokens line ! 1)) ''http://'' 7 \<and>
            the_str (request_tokens line ! 0) \<noteq> ''CONNECT'')"
  shows "\<exists>c'. handle_connection env t0 evs accepts c = Closed c' \<and>
           response_message_sent c' \<and> server_fd c' = -1 \<and> server_out c' = server_out c \<and>
           (if TUNNEL_CONFIGURED env
            then client_out c' = client_out c @ [ErrorBody 404 ''Unable to connect to tunnel.''] \<and>
                 dialed c' = dialed c @ [(the (tunnel_name env), tunnel_port env)]
            else (\<exists>msg. client_out c' = client_out c @ [ErrorBody 400 msg]) \<and>
                 dialed c' = dialed c)"
proof (cases "TUNNEL_CONFIGURED env")
  case False
  from refused_after_request_line [OF line fresh(2) bad, of t0 evs accepts]
  obtain msg rest' where "internal_proxy env t0 evs accepts c
           = Closed ((httperr c 400 msg)\<lparr>client_in := rest', request_line := line\<rparr>)"
    by blast
  then have "handle_connection env t0 evs accepts c
           = Closed ((httperr c 400 msg)\<lparr>client_in := rest', request_line := line\<rparr>)"
    using acl False by (simp add: handle_connection_def)
  then show ?thesis
    using False fresh by (auto simp: httperr_def)
next
  case True
  define c1 where "c1 = dial env c (the (tunnel_name env)) (tunnel_port env)"
  define c2 where "c2 = httperr c1 404 ''Unable to connect to tunnel.''"
  have fd1: "server_fd c1 = -1" using tun True by (simp add: c1_def dial_def)
  then have ct: "connect_to_tunnel env c = (-1, c2)"
    by (simp add: connect_to_tunnel_def c1_def [symmetric] c2_def)
  have c2: "c2 = c\<lparr>server_fd := -1,
                   dialed := dialed c @ [(the (tunnel_name env), tunnel_port env)],
                   client_out := client_out c @ [ErrorBody 404 ''Unable to connect to tunnel.''],
                   response_message_sent := True\<rparr>"
    using fresh tun True by (simp add: c2_def c1_def dial_def httperr_def)
  have line2: "read_request_line_from env (client_in c2) = GotLine line rest"
    and fd2: "server_fd c2 = -1" and sent2: "response_message_sent c2"
    using line by (simp_all add: c2)
  from refused_after_request_line [OF line2 fd2 bad, of t0 evs accepts]
  obtain msg rest' where "internal_proxy env t0 evs accepts c2
           = Closed ((httperr c2 400 msg)\<lparr>client_in := rest', request_line := line\<rparr>)"
    by blast
  moreover have "httperr c2 400 msg = c2" using sent2 by (simp add: httperr_def)
  ultimately have "handle_connection env t0 evs accepts c
           = Closed (c2\<lparr>client_in := rest', request_line := line\<rparr>)"
    using acl True ct by (simp add: handle_connection_def)
  then show ?thesis
    using True by (simp add: c2)
qed

theorem bad_request_line_refused_witness:
  "0 < check_acl direct_env \<and> \<not> TUNNEL_CONFIGURED direct_env \<and>
   0 < check_acl tunnel_down_env \<and> TUNNEL_CONFIGURED tunnel_down_env \<and>
   opensock tunnel_down_env (the (tunnel_name tunnel_down_env)) (tunnel_port tunnel_down_env) = -1 \<and>
   read_request_line_from direct_env (client_in (fresh_conn (''GET / HTTP/1.0'' @ CRLF @ CRLF)))
     = GotLine ''GET / HTTP/1.0'' CRLF \<and>
   \<not> response_message_sent (fresh_conn (''GET / HTTP/1.0'' @ CRLF @ CRLF)) \<and>
   server_fd (fresh_conn (''GET / HTTP/1.0'' @ CRLF @ CRLF)) = -1 \<and>
   \<not> strncaseeq (the_str (request_tokens ''GET / HTTP/1.0'' ! 1)) ''http://'' 7 \<and>
   the_str (request_tokens ''GET / HTTP/1.0'' ! 0) \<noteq> ''CONNECT'' \<and>
   (\<exists>c' msg. handle_connection direct_env 0 [] [] (fresh_conn (''GET / HTTP/1.0'' @ CRLF @ CRLF))
        = Closed c' \<and>
      response_message_sent c' \<and> server_fd c' = -1 \<and> server_out c' = [] \<and>
      client_out c' = [ErrorBody 400 msg] \<and> dialed c' = []) \<and>
   (\<exists>c'. handle_connection tunnel_down_env 0 [] [] (fresh_conn (''GET / HTTP/1.0'' @ CRLF @ CRLF))
        = Closed c' \<and>
      response_message_sent c' \<and> server_fd c' = -1 \<and> server_out c' = [] \<and>
      client_out c' = [ErrorBody 404 ''Unable to connect to tunnel.''] \<and>
      dialed c' = [(''news'', 119)])"
proof -
  let ?c = "fresh_conn (''GET / HTTP/1.0'' @ CRLF @ CRLF)"
  have h1: "0 < check_acl direct_env" "0 < check_acl tunnel_down_env"
    by (simp_all add: direct_env_def tunnel_down_env_def)
  have h2: "\<not> TUNNEL_CONFIGURED direct_env" "TUNNEL_CONFIGURED tunnel_down_env"
    by (simp_all add: direct_env_def tunnel_down_env_def TUNNEL_CONFIGURED_def)
  have h2a: "opensock tunnel_down_env (the (tunnel_name tunnel_down_env))
               (tunnel_port tunnel_down_env) = -1"
    by (simp add: tunnel_down_env_def)
  have h3: "read_request_line_from direct_env (client_in ?c) = GotLine ''GET / HTTP/1.0'' CRLF"
    by (simp add: read_request_line_from.simps fresh_conn_def initialize_conn_def CRLF_def
        readline_def HTTP_LINE_LENGTH_def direct_env_def chomp_def cstr_def NUL_def)
  have h3t: "read_request_line_from tunnel_down_env (client_in ?c) = GotLine ''GET / HTTP/1.0'' CRLF"
    by (simp add: read_request_line_from.simps fresh_conn_def initialize_conn_def CRLF_def
        readline_def HTTP_LINE_LENGTH_def tunnel_down_env_def direct_env_def chomp_def cstr_def
        NUL_def)
  have h4: "\<not> response_message_sent ?c" "server_fd ?c = -1"
    by (simp_all add: fresh_conn_def initialize_conn_def)
  have h5: "\<not> strncaseeq (the_str (request_tokens ''GET / HTTP/1.0'' ! 1)) ''http://'' 7"
    by (simp add: request_tokens_def strncaseeq_def strcaseeq_def isspace_def tolower_def)
  have h6: "the_str (request_tokens ''GET / HTTP/1.0'' ! 0) \<noteq> ''CONNECT''"
    by (simp add: request_tokens_def isspace_def)
  from h5 h6 have h7: "length (request_tokens ''GET / HTTP/1.0'') < 2 \<or>
           (\<not> strncaseeq (the_str (request_tokens ''GET / HTTP/1.0'' ! 1)) ''http://'' 7 \<and>
            the_str (request_tokens ''GET / HTTP/1.0'' ! 0) \<noteq> ''CONNECT'')" by simp
  have e: "server_out ?c = []" "client_out ?c = []" "dialed ?c = []"
    by (simp_all add: fresh_conn_def initialize_conn_def)
  have t: "the (tunnel_name tunnel_down_env) = ''news''" "tunnel_port tunnel_down_env = 119"
    by (simp_all add: tunnel_down_env_def)
  have tun1: "TUNNEL_CONFIGURED direct_env \<longrightarrow>
                opensock direct_env (the (tunnel_name direct_env)) (tunnel_port direct_env) = -1"
    using h2 by simp
  have tun2: "TUNNEL_CONFIGURED tunnel_down_env \<longrightarrow>
                opensock tunnel_down_env (the (tunnel_name tunnel_down_env))
                  (tunnel_port tunnel_down_env) = -1"
    using h2a by simp
  note a0 = bad_request_line_refused [OF h1(1) tun1 h3 h4 h7, of 0 "[]" "[]"]
  have a: "\<exists>c' msg. handle_connection direct_env 0 [] [] ?c = Closed c' \<and>
      response_message_sent c' \<and> server_fd c' = -1 \<and> server_out c' = [] \<and>
      client_out c' = [ErrorBody 400 msg] \<and> dialed c' = []"
    using a0 h2(1) unfolding e by auto
  note b0 = bad_request_line_refused [OF h1(2) tun2 h3t h4 h7, of 0 "[]" "[]"]
  have b: "\<exists>c'. handle_connection tunnel_down_env 0 [] [] ?c = Closed c' \<and>
      response_message_sent c' \<and> server_fd c' = -1 \<and> server_out c' = [] \<and>
      client_out c' = [ErrorBody 404 ''Unable to connect to tunnel.''] \<and>
      dialed c' = [(''news'', 119)]"
    using b0 h2(2) unfolding e t by auto
  from h1 h2 h2a h3 h4 h5 h6 a b show ?thesis by blast
qed

text \<open>
  C8, as stated, fails.  The line \<open>GET<TAB>foo http://h/ HTTP/1.0\<close> has the
  white-space-separated tokens \<open>GET\<close>, \<open>foo\<close>, \<open>http://h/\<close>, \<open>HTTP/1.0\<close>, so
  its url \<open>foo\<close> is no absolute URL and its method is not CONNECT; the
  proxy takes \<open>GET<TAB>foo\<close> for the method, dials \<open>h\<close> and writes no error
  body.  And where the tunnel could not be dialled, a line without url gets
  the 404 of the tunnel and no 400.
\<close>

theorem bad_request_line_not_always_400:
  "spec_tokens (''GET'' @ [CHR 0x09] @ ''foo http://h/ HTTP/1.0'')
     = [''GET'', ''foo'', ''http://h/'', ''HTTP/1.0''] \<and>
   \<not> strncaseeq ''foo'' ''http://'' 7 \<and>
   handle_connection direct_env 0 [] []
       (fresh_conn (''GET'' @ [CHR 0x09] @ ''foo http://h/ HTTP/1.0'' @ CRLF @ CRLF))
     = Closed ((fresh_conn [])
         \<lparr>server_fd := 5,
          server_out := [''GET'' @ [CHR 0x09] @ ''foo / HTTP/1.0'' @ CRLF, ''Host: h'' @ CRLF,
                         ''Connection: close'' @ CRLF, ''Via: 1.0 proxy (tinyproxy/1.5.0)'' @ CRLF,
                         CRLF],
          request_line := ''GET'' @ [CHR 0x09] @ ''foo http://h/ HTTP/1.0'',
          protocol_major := 1, dialed := [(''h'', 80)]\<rparr>) \<and>
   handle_connection tunnel_down_env 0 [] [] (fresh_conn (''GET'' @ CRLF @ CRLF))
     = Closed ((fresh_conn [])
         \<lparr>client_out := [ErrorBody 404 ''Unable to connect to tunnel.''],
          request_line := ''GET'', response_message_sent := True,
          dialed := [(''news'', 119)]\<rparr>)"
proof (intro conjI)
  show "spec_tokens (''GET'' @ [CHR 0x09] @ ''foo http://h/ HTTP/1.0'')
     = [''GET'', ''foo'', ''http://h/'', ''HTTP/1.0'']"
    by (simp add: spec_tokens_def split_runs.simps isspace_def)
  show "\<not> strncaseeq ''foo'' ''http://'' 7"
    by (simp add: strncaseeq_def strcaseeq_def tolower_def)
  show "handle_connection direct_env 0 [] []
       (fresh_conn (''GET'' @ [CHR 0x09] @ ''foo http://h/ HTTP/1.0'' @ CRLF @ CRLF))
     = Closed ((fresh_conn [])
         \<lparr>server_fd := 5,
          server_out := [''GET'' @ [CHR 0x09] @ ''foo / HTTP/1.0'' @ CRLF, ''Host: h'' @ CRLF,
                         ''Connection: close'' @ CRLF, ''Via: 1.0 proxy (tinyproxy/1.5.0)'' @ CRLF,
                         CRLF],
          request_line := ''GET'' @ [CHR 0x09] @ ''foo http://h/ HTTP/1.0'',
          protocol_major := 1, dialed := [(''h'', 80)]\<rparr>)"
    by (simp add: run_defs direct_env_def)
  show "handle_connection tunnel_down_env 0 [] [] (fresh_conn (''GET'' @ CRLF @ CRLF))
     = Closed ((fresh_conn [])
         \<lparr>client_out := [ErrorBody 404 ''Unable to connect to tunnel.''],
          request_line := ''GET'', response_message_sent := True,
          dialed := [(''news'', 119)]\<rparr>)"
    by (simp add: run_defs tunnel_down_env_def direct_env_def)
qed


section \<open>Reading the client's headers\<close>

















lemma process_client_headers_early:
  assumes "get_all_headers env [] (client_in c) = (Some m, rest)"
    and "server_fd c = -1 \<or> (connect_method c \<and> \<not> UPSTREAM_CONFIGURED env)"
  shows "process_client_headers env c = (0, c\<lparr>client_in := rest\<rparr>)"
  using assms by (auto simp: process_client_headers_def)





section \<open>Absolute URLs\<close>

lemma takeWhile_run: "\<forall>c \<in> set xs. P c \<Longrightarrow> \<not> P x \<Longrightarrow> takeWhile P (xs @ x # ys) = xs"
  by (induction xs) auto

lemma takeWhile_whole: "\<forall>c \<in> set xs. P c \<Longrightarrow> takeWhile P xs = xs"
  by (induction xs) auto

lemma isdigit_plain: "isdigit c \<Longrightarrow> \<not> isspace c \<and> c \<noteq> CHR ''-'' \<and> c \<noteq> CHR ''+'' \<and> c \<noteq> CHR ''/''"
  by (auto simp: isdigit_def isspace_def)

lemma scan_unsigned_digits:
  assumes "D \<noteq> []" "\<forall>c \<in> set D. isdigit c" "rest = [] \<or> \<not> isdigit (hd rest)"
  shows "scan_unsigned (dropWhile isspace (D @ rest)) = Some (False, digits_val D, rest)"
proof -
  from assms(1) obtain d D' where D: "D = d # D'" by (cases D) auto
  with assms(2) have d: "isdigit d" by simp
  have tw: "takeWhile isdigit (D @ rest) = D"
  proof (cases rest)
    case Nil
    then show ?thesis using assms(2) by (simp add: takeWhile_whole)
  next
    case (Cons x xs)
    then show ?thesis using assms(2,3) by (simp add: takeWhile_run)
  qed
  have "dropWhile isspace (D @ rest) = D @ rest"
    using d isdigit_plain [OF d] by (simp add: D)
  then show ?thesis
    using tw isdigit_plain [OF d] assms(1) unfolding scan_unsigned_def
    by (simp add: D Let_def)
qed

lemma strtoul_plain: "strtoul False n = min n ULONG_MAX"
  by (simp add: strtoul_def)

lemma sscanf_hu:
  assumes "D \<noteq> []" "\<forall>c \<in> set D. isdigit c" "rest = [] \<or> \<not> isdigit (hd rest)"
  shows "sscanf (D @ rest) (ConvHU # ds)
         = VShort (of_nat (min (digits_val D) ULONG_MAX)) # sscanf rest ds"
  using scan_unsigned_digits [OF assms] by (simp add: strtoul_plain)

lemma sscanf_s_path:
  assumes "\<forall>c \<in> set Pa. \<not> isspace c"
  shows "sscanf (CHR ''/'' # Pa) [ConvS] = [VStr (CHR ''/'' # Pa)]"
proof -
  have "\<not> isspace (CHR ''/'')" by (simp add: isspace_def)
  then show ?thesis using assms by (simp add: Let_def takeWhile_whole)
qed

lemma sscanf_s_end: "sscanf [] (ConvS # ds) = []"
  by simp

lemma shape_host_port_path:
  assumes H: "H \<noteq> []" "\<forall>c \<in> set H. c \<noteq> CHR '':'' \<and> c \<noteq> CHR ''/''"
    and D: "D \<noteq> []" "\<forall>c \<in> set D. isdigit c"
    and Pa: "\<forall>c \<in> set Pa. \<not> isspace c"
  shows "extract_http_url (''http://'' @ H @ '':'' @ D @ ''/'' @ Pa) req
         = Some (req\<lparr>host := H, port := of_nat (min (digits_val D) ULONG_MAX), path := ''/'' @ Pa\<rparr>)"
proof -
  have tw: "takeWhile (\<lambda>c. c \<notin> set '':/'') (H @ CHR '':'' # D @ CHR ''/'' # Pa) = H"
    using H(2) by (intro takeWhile_run) auto
  have hu: "sscanf (D @ CHR ''/'' # Pa) [ConvHU, ConvS]
              = VShort (of_nat (min (digits_val D) ULONG_MAX)) # sscanf (CHR ''/'' # Pa) [ConvS]"
    using D by (intro sscanf_hu) (auto simp: isdigit_def)
  have "sscanf (''http://'' @ H @ '':'' @ D @ ''/'' @ Pa)
          [Lit ''http://'', NotSet '':/'', Lit '':'', ConvHU, ConvS]
        = [VStr H, VShort (of_nat (min (digits_val D) ULONG_MAX)), VStr (CHR ''/'' # Pa)]"
    using H(1) tw hu sscanf_s_path [OF Pa] by (simp add: Let_def del: sscanf.simps(5,6))
  then show ?thesis unfolding extract_http_url_def by simp
qed


lemma digits_no_slash: "\<forall>c \<in> set D. isdigit c \<Longrightarrow> \<forall>c \<in> set D. c \<noteq> CHR ''/''"
  using isdigit_plain by blast

lemma shape_host_path:
  assumes H: "H \<noteq> []" "\<forall>c \<in> set H. c \<noteq> CHR '':'' \<and> c \<noteq> CHR ''/''"
    and Pa: "\<forall>c \<in> set Pa. \<not> isspace c"
  shows "extract_http_url (''http://'' @ H @ ''/'' @ Pa) req
         = Some (req\<lparr>host := H, port := 80, path := ''/'' @ Pa\<rparr>)"
proof -
  have s1: "sscanf (''http://'' @ H @ ''/'' @ Pa)
          [Lit ''http://'', NotSet '':/'', Lit '':'', ConvHU, ConvS] = [VStr H]"
    using H by (simp add: Let_def takeWhile_run)
  have s2: "sscanf (''http://'' @ H @ ''/'' @ Pa) [Lit ''http://'', NotSet ''/'', ConvS]
        = [VStr H, VStr (CHR ''/'' # Pa)]"
    using H sscanf_s_path [OF Pa] by (simp add: Let_def takeWhile_run del: sscanf.simps(5))
  show ?thesis unfolding extract_http_url_def s1 s2 by simp
qed

lemma shape_host_port:
  assumes H: "H \<noteq> []" "\<forall>c \<in> set H. c \<noteq> CHR '':'' \<and> c \<noteq> CHR ''/''"
    and D: "D \<noteq> []" "\<forall>c \<in> set D. isdigit c"
  shows "extract_http_url (''http://'' @ H @ '':'' @ D) req
         = Some (req\<lparr>host := H, port := of_nat (min (digits_val D) ULONG_MAX), path := ''/''\<rparr>)"
proof -
  note Dn = digits_no_slash [OF D(2)]
  have hu: "sscanf D (ConvHU # ds) = VShort (of_nat (min (digits_val D) ULONG_MAX)) # sscanf [] ds" for ds
    using sscanf_hu [of D "[]" ds] D by simp
  have s1: "sscanf (''http://'' @ H @ '':'' @ D)
          [Lit ''http://'', NotSet '':/'', Lit '':'', ConvHU, ConvS]
        = [VStr H, VShort (of_nat (min (digits_val D) ULONG_MAX))]"
    using H hu [of "[ConvS]"] by (simp add: Let_def takeWhile_run del: sscanf.simps(6))
  have s2: "sscanf (''http://'' @ H @ '':'' @ D) [Lit ''http://'', NotSet ''/'', ConvS]
        = [VStr (H @ CHR '':'' # D)]"
    using H Dn by (simp add: Let_def takeWhile_whole)
  have s3: "sscanf (''http://'' @ H @ '':'' @ D) [Lit ''http://'', NotSet '':/'', Lit '':'', ConvHU]
        = [VStr H, VShort (of_nat (min (digits_val D) ULONG_MAX))]"
    using H hu [of "[]"] by (simp add: Let_def takeWhile_run del: sscanf.simps(6))
  show ?thesis unfolding extract_http_url_def s1 s2 s3 by simp
qed

lemma shape_host:
  assumes H: "H \<noteq> []" "\<forall>c \<in> set H. c \<noteq> CHR '':'' \<and> c \<noteq> CHR ''/''"
  shows "extract_http_url (''http://'' @ H) req
         = Some (req\<lparr>host := H, port := 80, path := ''/''\<rparr>)"
proof -
  have s1: "sscanf (''http://'' @ H)
          [Lit ''http://'', NotSet '':/'', Lit '':'', ConvHU, ConvS] = [VStr H]"
    using H by (simp add: Let_def takeWhile_whole)
  have s2: "sscanf (''http://'' @ H) [Lit ''http://'', NotSet ''/'', ConvS] = [VStr H]"
    using H by (simp add: Let_def takeWhile_whole)
  have s3: "sscanf (''http://'' @ H) [Lit ''http://'', NotSet '':/'', Lit '':'', ConvHU] = [VStr H]"
    using H by (simp add: Let_def takeWhile_whole)
  have s4: "sscanf (''http://'' @ H) [Lit ''http://'', NotSet ''/''] = [VStr H]"
    using H by (simp add: Let_def takeWhile_whole)
  show ?thesis unfolding extract_http_url_def s1 s2 s3 s4 by simp
qed

lemma cascade_last:
  "(case A3 of [VStr h, VShort p] \<Rightarrow> Some (f3 h p) | _ \<Rightarrow> Some x) \<noteq> None"
  by (simp split: list.splits scanval.splits)

lemma cascade_mid:
  "Y \<noteq> None \<Longrightarrow> (case A2 of [VStr h, VStr pa] \<Rightarrow> Some (f2 h pa) | _ \<Rightarrow> Y) \<noteq> None"
  by (simp split: list.splits scanval.splits)

lemma cascade_first:
  "Y \<noteq> None \<Longrightarrow> (case A1 of [VStr h, VShort p, VStr pa] \<Rightarrow> Some (f1 h p pa) | _ \<Rightarrow> Y) \<noteq> None"
  by (simp split: list.splits scanval.splits)

lemma extract_http_url_rejects:
  "(extract_http_url (''http://'' @ r) req = None) = (r = [] \<or> hd r = CHR ''/'')"
proof (cases "r = [] \<or> hd r = CHR ''/''")
  case True
  then show ?thesis by (cases r) (auto simp: extract_http_url_def Let_def)
next
  case False
  then obtain c r' where r: "r = c # r'" and c: "c \<noteq> CHR ''/''" by (cases r) auto
  then have s4: "sscanf (''http://'' @ r) [Lit ''http://'', NotSet ''/'']
               = [VStr (takeWhile (\<lambda>c. c \<notin> set ''/'') r)]"
    by (simp add: Let_def)
  have "extract_http_url (''http://'' @ r) req \<noteq> None"
    unfolding extract_http_url_def s4
    by (intro cascade_first cascade_mid) (simp split: list.splits scanval.splits)
  then show ?thesis using False by simp
qed


lemma tolower_punct: "tolower c = CHR '':'' \<Longrightarrow> c = CHR '':''" "tolower c = CHR ''/'' \<Longrightarrow> c = CHR ''/''"
  by (auto simp: tolower_def split: option.splits if_splits)

lemma normalised_scheme:
  assumes "strncaseeq url ''http://'' 7"
  shows "memcpy url ''http'' 4 = ''http://'' @ drop 7 url"
proof -
  define t where "t = take 7 url"
  have mt: "map tolower t = ''http://''"
    using assms by (simp add: strncaseeq_def strcaseeq_def t_def tolower_def)
  then have "length t = 7" using length_map [of tolower t] by simp
  then obtain a b c d e f g where t: "t = [a, b, c, d, e, f, g]"
    by (auto simp: length_Suc_conv eval_nat_numeral)
  with mt have "e = CHR '':''" "f = CHR ''/''" "g = CHR ''/''"
    using tolower_punct by auto
  moreover have "url = t @ drop 7 url" by (simp add: t_def)
  ultimately have "drop 4 url = '':/'' @ [CHR ''/''] @ drop 7 url"
    using t by (metis append_Cons append_Nil drop0 drop_Suc_Cons eval_nat_numeral(2) numeral_2_eq_2
        numeral_3_eq_3 semiring_norm(26) semiring_norm(27))
  then show ?thesis by (simp add: memcpy_def)
qed


lemma process_request_unparsed:
  assumes "2 \<le> length (request_tokens (request_line c))"
    and "strncaseeq (the_str (request_tokens (request_line c) ! 1)) ''http://'' 7"
    and "extract_http_url (memcpy (the_str (request_tokens (request_line c) ! 1)) ''http'' 4)
           \<lparr>method = the_str (request_tokens (request_line c) ! 0),
            protocol = (if length (request_tokens (request_line c)) < 3 then uninitialised env
                        else the_str (request_tokens (request_line c) ! 2)),
            host = [], port = 0, path = []\<rparr> = None"
  shows "process_request env c = (None, httperr c 400 ''Bad Request. Could not parse URL.'')"
  using assms by (simp add: process_request_def Let_def)

text \<open>
  C3, as amended.  A url that begins with \<open>http://\<close> in any case is parsed
  after its scheme is overwritten with \<open>http\<close>.  For a non-empty host \<open>H\<close>
  without colon or slash, decimal digits \<open>D\<close> and a path \<open>/Pa\<close> without
  white space, the four shapes \<open>http://H:D/Pa\<close>, \<open>http://H/Pa\<close>,
  \<open>http://H:D\<close> and \<open>http://H\<close> give the host \<open>H\<close>, the port \<open>D\<close> or 80,
  and the path \<open>/Pa\<close> or \<open>/\<close>; the port is what \<open>strtoul\<close> makes of \<open>D\<close>
  (at most \<open>ULONG_MAX\<close>) stored in 16 bits, so it is \<open>D\<close> below \<open>2^16\<close>.
  The url is rejected, with the 400 error body, exactly when nothing or a
  slash follows \<open>http://\<close>; every other url is accepted.
\<close>

theorem http_url_shapes:
  assumes "strncaseeq url ''http://'' 7"
    and "H \<noteq> []" "\<forall>c \<in> set H. c \<noteq> CHR '':'' \<and> c \<noteq> CHR ''/''"
    and "D \<noteq> []" "\<forall>c \<in> set D. isdigit c"
    and "\<forall>c \<in> set Pa. \<not> isspace c"
  shows
   "(drop 7 url = H @ '':'' @ D @ ''/'' @ Pa \<longrightarrow>
       extract_http_url (memcpy url ''http'' 4) req
         = Some (req\<lparr>host := H, port := of_nat (min (digits_val D) ULONG_MAX), path := ''/'' @ Pa\<rparr>)) \<and>
    (drop 7 url = H @ ''/'' @ Pa \<longrightarrow>
       extract_http_url (memcpy url ''http'' 4) req
         = Some (req\<lparr>host := H, port := 80, path := ''/'' @ Pa\<rparr>)) \<and>
    (drop 7 url = H @ '':'' @ D \<longrightarrow>
       extract_http_url (memcpy url ''http'' 4) req
         = Some (req\<lparr>host := H, port := of_nat (min (digits_val D) ULONG_MAX), path := ''/''\<rparr>)) \<and>
    (drop 7 url = H \<longrightarrow>
       extract_http_url (memcpy url ''http'' 4) req
         = Some (req\<lparr>host := H, port := 80, path := ''/''\<rparr>)) \<and>
    ((extract_http_url (memcpy url ''http'' 4) req = None)
       = (drop 7 url = [] \<or> hd (drop 7 url) = CHR ''/'')) \<and>
    (2 \<le> length (request_tokens (request_line c)) \<and>
     the_str (request_tokens (request_line c) ! 1) = url \<and>
     (drop 7 url = [] \<or> hd (drop 7 url) = CHR ''/'') \<longrightarrow>
       process_request env c = (None, httperr c 400 ''Bad Request. Could not parse URL.''))"
proof -
  note n = normalised_scheme [OF assms(1)]
  have rej: "(extract_http_url (memcpy url ''http'' 4) r = None)
       = (drop 7 url = [] \<or> hd (drop 7 url) = CHR ''/'')" for r
    unfolding n by (rule extract_http_url_rejects)
  have a: "drop 7 url = H @ '':'' @ D @ ''/'' @ Pa \<longrightarrow>
       extract_http_url (memcpy url ''http'' 4) req
         = Some (req\<lparr>host := H, port := of_nat (min (digits_val D) ULONG_MAX), path := ''/'' @ Pa\<rparr>)"
    unfolding n using shape_host_port_path [OF assms(2-6), of req] by simp
  have b: "drop 7 url = H @ ''/'' @ Pa \<longrightarrow>
       extract_http_url (memcpy url ''http'' 4) req
         = Some (req\<lparr>host := H, port := 80, path := ''/'' @ Pa\<rparr>)"
    unfolding n using shape_host_path [OF assms(2,3,6), of req] by simp
  have c: "drop 7 url = H @ '':'' @ D \<longrightarrow>
       extract_http_url (memcpy url ''http'' 4) req
         = Some (req\<lparr>host := H, port := of_nat (min (digits_val D) ULONG_MAX), path := ''/''\<rparr>)"
    unfolding n using shape_host_port [OF assms(2-5), of req] by simp
  have d: "drop 7 url = H \<longrightarrow>
       extract_http_url (memcpy url ''http'' 4) req
         = Some (req\<lparr>host := H, port := 80, path := ''/''\<rparr>)"
    unfolding n using shape_host [OF assms(2,3), of req] by simp
  have e: "2 \<le> length (request_tokens (request_line c)) \<and>
     the_str (request_tokens (request_line c) ! 1) = url \<and>
     (drop 7 url = [] \<or> hd (drop 7 url) = CHR ''/'') \<longrightarrow>
       process_request env c = (None, httperr c 400 ''Bad Request. Could not parse URL.'')"
    using assms(1) rej by (auto intro!: process_request_unparsed)
  from a b c d rej [of req] e show ?thesis by blast
qed

theorem http_url_shapes_witness:
  "strncaseeq ''HTTP://h:8080/p'' ''http://'' 7 \<and>
   extract_http_url (memcpy ''HTTP://h:8080/p'' ''http'' 4) request0
     = Some (request0\<lparr>host := ''h'', port := 8080, path := ''/p''\<rparr>) \<and>
   extract_http_url (memcpy ''http://h/p'' ''http'' 4) request0
     = Some (request0\<lparr>host := ''h'', port := 80, path := ''/p''\<rparr>) \<and>
   extract_http_url (memcpy ''http://h:8080'' ''http'' 4) request0
     = Some (request0\<lparr>host := ''h'', port := 8080, path := ''/''\<rparr>) \<and>
   extract_http_url (memcpy ''http://h'' ''http'' 4) request0
     = Some (request0\<lparr>host := ''h'', port := 80, path := ''/''\<rparr>) \<and>
   extract_http_url (memcpy ''http://'' ''http'' 4) request0 = None \<and>
   process_request direct_env ((fresh_conn [])\<lparr>request_line := ''GET http:///x HTTP/1.0''\<rparr>)
     = (None, httperr ((fresh_conn [])\<lparr>request_line := ''GET http:///x HTTP/1.0''\<rparr>) 400
                ''Bad Request. Could not parse URL.'')"
proof -
  have H: "''h'' \<noteq> []" "\<forall>c \<in> set ''h''. c \<noteq> CHR '':'' \<and> c \<noteq> CHR ''/''" by simp_all
  have D: "''8080'' \<noteq> []" "\<forall>c \<in> set ''8080''. isdigit c" by (simp_all add: isdigit_def)
  have Pa: "\<forall>c \<in> set ''p''. \<not> isspace c" by (simp add: isspace_def)
  have dv: "of_nat (min (digits_val ''8080'') ULONG_MAX) = (8080 :: 16 word)"
    by (simp add: digits_val_def digit_val_def ULONG_MAX_def)
  have u1: "strncaseeq ''HTTP://h:8080/p'' ''http://'' 7"
    and u2: "strncaseeq ''http://h/p'' ''http://'' 7"
    and u3: "strncaseeq ''http://h:8080'' ''http://'' 7"
    and u4: "strncaseeq ''http://h'' ''http://'' 7"
    and u5: "strncaseeq ''http://'' ''http://'' 7"
    and u6: "strncaseeq ''http:///x'' ''http://'' 7"
    by (simp_all add: strncaseeq_def strcaseeq_def tolower_def)
  let ?c = "(fresh_conn [])\<lparr>request_line := ''GET http:///x HTTP/1.0''\<rparr>"
  have tk: "2 \<le> length (request_tokens (request_line ?c))"
    "the_str (request_tokens (request_line ?c) ! 1) = ''http:///x''"
    by (simp_all add: request_tokens_def isspace_def)
  from http_url_shapes [OF u1 H D Pa, of request0 ?c direct_env]
  have a: "extract_http_url (memcpy ''HTTP://h:8080/p'' ''http'' 4) request0
     = Some (request0\<lparr>host := ''h'', port := 8080, path := ''/p''\<rparr>)"
    by (simp add: dv)
  from http_url_shapes [OF u2 H D Pa, of request0 ?c direct_env]
  have b: "extract_http_url (memcpy ''http://h/p'' ''http'' 4) request0
     = Some (request0\<lparr>host := ''h'', port := 80, path := ''/p''\<rparr>)"
    by simp
  from http_url_shapes [OF u3 H D Pa, of request0 ?c direct_env]
  have c: "extract_http_url (memcpy ''http://h:8080'' ''http'' 4) request0
     = Some (request0\<lparr>host := ''h'', port := 8080, path := ''/''\<rparr>)"
    by (simp add: dv)
  from http_url_shapes [OF u4 H D Pa, of request0 ?c direct_env]
  have d: "extract_http_url (memcpy ''http://h'' ''http'' 4) request0
     = Some (request0\<lparr>host := ''h'', port := 80, path := ''/''\<rparr>)"
    by simp
  from http_url_shapes [OF u5 H D Pa, of request0 ?c direct_env]
  have e: "extract_http_url (memcpy ''http://'' ''http'' 4) request0 = None"
    by simp
  from http_url_shapes [OF u6 H D Pa, of request0 ?c direct_env] tk
  have f: "process_request direct_env ?c
     = (None, httperr ?c 400 ''Bad Request. Could not parse URL.'')"
    by simp
  from u1 a b c d e f show ?thesis by blast
qed

text \<open>
  C3, as stated, fails at \<open>http://h:80abc\<close>: it is none of the four shapes,
  and the parser accepts it, with the path \<open>abc\<close>.
\<close>

theorem http_url_accepts_other_shape:
  "strncaseeq ''http://h:80abc'' ''http://'' 7 \<and>
   spec_http_url ''http://h:80abc'' = None \<and>
   extract_http_url (memcpy ''http://h:80abc'' ''http'' 4) request0
     = Some (request0\<lparr>host := ''h'', port := 80, path := ''abc''\<rparr>)"
  by (simp add: strncaseeq_def strcaseeq_def tolower_def spec_http_url_def isdigit_def
      memcpy_def extract_http_url_def isspace_def scan_unsigned_def digits_val_def digit_val_def
      strtoul_def ULONG_MAX_def request0_def Let_def)


section \<open>CONNECT targets\<close>

lemma httperr_connect_method: "connect_method (httperr c code msg) = connect_method c"
  by (simp add: httperr_def)

lemma scan_version_connect_method: "connect_method (scan_version proto c) = connect_method c"
  by (simp add: scan_version_def split: list.splits scanval.splits)

lemma gates_connect_method:
  "connect_method (snd (process_request_gates env c request)) = connect_method c"
  by (simp add: process_request_gates_def httperr_connect_method showstats_def
      scan_version_connect_method Let_def)

lemma url_token:
  assumes "2 \<le> length (request_tokens line)"
  shows "the_str (request_tokens line ! 1) \<noteq> [] \<and> \<not> isspace (hd (the_str (request_tokens line ! 1)))"
proof -
  define inp2 where "inp2 = dropWhile isspace (drop (length (takeWhile (\<lambda>c. c \<notin> set '' '') line)) line)"
  define tok2 where "tok2 = takeWhile (\<lambda>c. c \<notin> set '' '') inp2"
  from assms have ne: "tok2 \<noteq> []" and url: "the_str (request_tokens line ! 1) = tok2"
    by (auto simp: request_tokens_def Let_def inp2_def tok2_def split: if_splits)
  from ne have "inp2 \<noteq> []" by (auto simp: tok2_def)
  then have "\<not> isspace (hd inp2)"
    unfolding inp2_def by (rule hd_dropWhile)
  moreover have "hd tok2 = hd inp2"
    using ne by (cases inp2) (auto simp: tok2_def split: if_splits)
  ultimately show ?thesis using ne url by simp
qed

lemma extract_ssl_url_total:
  assumes "url \<noteq> []" "\<not> isspace (hd url)"
  shows "extract_ssl_url url r \<noteq> None"
proof -
  from assms obtain c u where u: "url = c # u" and c: "\<not> isspace c" by (cases url) auto
  then have s2: "sscanf url [ConvS] = [VStr (takeWhile (\<lambda>c. \<not> isspace c) url)]"
    by (simp add: Let_def)
  show ?thesis
    unfolding extract_ssl_url_def s2 by (simp split: list.splits scanval.splits)
qed

lemma extract_ssl_url_authority:
  assumes "is_authority url"
  shows "extract_ssl_url url r
         = Some (r\<lparr>host := fst (spec_authority url), port := of_nat (snd (spec_authority url))\<rparr>)"
proof -
  define h where "h = takeWhile (\<lambda>c. c \<noteq> CHR '':'') url"
  have url: "url = h @ drop (length h) url"
    using takeWhile_dropWhile_id [of "\<lambda>c. c \<noteq> CHR '':''" url]
    by (simp add: h_def dropWhile_eq_drop)
  have hne: "h \<noteq> []" and hsp: "\<forall>c \<in> set h. \<not> isspace c"
    using assms by (simp_all add: is_authority_def h_def Let_def)
  have hcol: "\<forall>c \<in> set h. c \<noteq> CHR '':''"
    unfolding h_def by (auto dest: set_takeWhileD)
  show ?thesis
  proof (cases "drop (length h) url")
    case Nil
    with url have uh: "url = h" by simp
    have s1: "sscanf h [NotSet '':'', Lit '':'', ConvHU] = [VStr h]"
      using hne hcol by (simp add: Let_def takeWhile_whole)
    have "\<not> isspace (hd h)" using hne hsp by (cases h) auto
    then have "dropWhile isspace h = h" using hne by (cases h) auto
    then have s2: "sscanf h [ConvS] = [VStr h]"
      using hne hsp by (simp add: Let_def takeWhile_whole)
    have sa: "spec_authority url = (h, 443)"
      using Nil by (simp add: spec_authority_def h_def [symmetric] Let_def)
    show ?thesis
      unfolding sa unfolding uh extract_ssl_url_def s1 s2 by simp
  next
    case (Cons x p)
    have x: "x = CHR '':''"
    proof -
      have "dropWhile (\<lambda>c. c \<noteq> CHR '':'') url = x # p"
        using Cons by (simp add: h_def dropWhile_eq_drop)
      then show ?thesis using hd_dropWhile [of "\<lambda>c. c \<noteq> CHR '':''" url] by auto
    qed
    from Cons x url have uh: "url = h @ CHR '':'' # p" by simp
    have p: "p \<noteq> []" "\<forall>d \<in> set p. isdigit d" "digits_val p < 65536"
      using assms Cons by (simp_all add: is_authority_def h_def [symmetric] Let_def)
    have "min (digits_val p) ULONG_MAX = digits_val p"
      using p(3) by (simp add: ULONG_MAX_def)
    then have hu: "sscanf p [ConvHU] = [VShort (of_nat (digits_val p))]"
      using sscanf_hu [of p "[]" "[]"] p(1,2) by simp
    have s1: "sscanf (h @ CHR '':'' # p) [NotSet '':'', Lit '':'', ConvHU]
                = [VStr h, VShort (of_nat (digits_val p))]"
      using hne hcol hu by (simp add: Let_def takeWhile_run del: sscanf.simps(6))
    have sa: "spec_authority url = (h, digits_val p)"
      using Cons by (simp add: spec_authority_def h_def [symmetric] Let_def)
    show ?thesis
      unfolding sa unfolding uh extract_ssl_url_def s1 by simp
  qed
qed


text \<open>
  C4, as amended.  When the request line has a url that does not begin with
  \<open>http://\<close> and its method is CONNECT, \<open>process_request\<close> sets
  \<open>connect_method\<close>, whatever the url; and a url in authority form (a host
  without white space, alone or followed by a colon and a decimal port below
  \<open>2^16\<close>) is parsed into its host and its port, 443 when it has none,
  before the filter and stathost gates.  Conversely, a request that turns
  \<open>connect_method\<close> on has the method CONNECT and a url that does not
  begin with \<open>http://\<close>; the url need not be in authority form.
\<close>

theorem connect_sets_connect_method:
  "(2 \<le> length (request_tokens (request_line c)) \<and>
    \<not> strncaseeq (the_str (request_tokens (request_line c) ! 1)) ''http://'' 7 \<and>
    the_str (request_tokens (request_line c) ! 0) = ''CONNECT'' \<longrightarrow>
      connect_method (snd (process_request env c)) \<and>
      (is_authority (the_str (request_tokens (request_line c) ! 1)) \<longrightarrow>
         process_request env c =
           process_request_gates env (c\<lparr>connect_method := True\<rparr>)
             \<lparr>method = ''CONNECT'',
              protocol = (if length (request_tokens (request_line c)) < 3 then uninitialised env
                          else the_str (request_tokens (request_line c) ! 2)),
              host = fst (spec_authority (the_str (request_tokens (request_line c) ! 1))),
              port = of_nat (snd (spec_authority (the_str (request_tokens (request_line c) ! 1)))),
              path = []\<rparr>)) \<and>
   (\<not> connect_method c \<and> connect_method (snd (process_request env c)) \<longrightarrow>
      2 \<le> length (request_tokens (request_line c)) \<and>
      \<not> strncaseeq (the_str (request_tokens (request_line c) ! 1)) ''http://'' 7 \<and>
      the_str (request_tokens (request_line c) ! 0) = ''CONNECT'')"
proof (intro conjI impI)
  let ?vals = "request_tokens (request_line c)"
  let ?url = "the_str (?vals ! 1)"
  let ?r0 = "\<lparr>method = the_str (?vals ! 0),
              protocol = (if length ?vals < 3 then uninitialised env else the_str (?vals ! 2)),
              host = [], port = 0, path = []\<rparr>"
  {
    assume a: "2 \<le> length ?vals \<and> \<not> strncaseeq ?url ''http://'' 7 \<and>
      the_str (?vals ! 0) = ''CONNECT''"
    then have tok: "?url \<noteq> []" "\<not> isspace (hd ?url)"
      using url_token [of "request_line c"] by simp_all
    then obtain r' where r': "extract_ssl_url ?url ?r0 = Some r'"
      using extract_ssl_url_total [of ?url ?r0] by auto
    have "process_request env c =
        (case extract_ssl_url ?url ?r0 of
           None \<Rightarrow> (None, httperr c 400 ''Bad Request. Could not parse URL.'')
         | Some request' \<Rightarrow> process_request_gates env (c\<lparr>connect_method := True\<rparr>) request')"
      using a unfolding process_request_def Let_def by simp
    then have pr: "process_request env c
        = process_request_gates env (c\<lparr>connect_method := True\<rparr>) r'"
      unfolding r' by simp
    then show "connect_method (snd (process_request env c))"
      by (simp add: gates_connect_method)
    {
      assume "is_authority ?url"
      from extract_ssl_url_authority [OF this, of ?r0] r'
      have "r' = ?r0\<lparr>host := fst (spec_authority ?url), port := of_nat (snd (spec_authority ?url))\<rparr>"
        by simp
      then show "process_request env c =
           process_request_gates env (c\<lparr>connect_method := True\<rparr>)
             \<lparr>method = ''CONNECT'',
              protocol = (if length ?vals < 3 then uninitialised env else the_str (?vals ! 2)),
              host = fst (spec_authority ?url),
              port = of_nat (snd (spec_authority ?url)),
              path = []\<rparr>"
        using pr a by simp
    }
  }
  {
    assume b: "\<not> connect_method c \<and> connect_method (snd (process_request env c))"
    then show "2 \<le> length ?vals"
      and "\<not> strncaseeq ?url ''http://'' 7"
      and "the_str (?vals ! 0) = ''CONNECT''"
      by (auto simp: process_request_def Let_def httperr_connect_method gates_connect_method
          split: if_splits option.splits)
  }
qed

theorem connect_sets_connect_method_witness:
  "\<not> strncaseeq (the_str (request_tokens ''CONNECT secure.test:8443 HTTP/1.1'' ! 1)) ''http://'' 7 \<and>
   the_str (request_tokens ''CONNECT secure.test:8443 HTTP/1.1'' ! 0) = ''CONNECT'' \<and>
   is_authority (the_str (request_tokens ''CONNECT secure.test:8443 HTTP/1.1'' ! 1)) \<and>
   \<not> connect_method ((fresh_conn [])\<lparr>request_line := ''CONNECT secure.test:8443 HTTP/1.1''\<rparr>) \<and>
   process_request direct_env
       ((fresh_conn [])\<lparr>request_line := ''CONNECT secure.test:8443 HTTP/1.1''\<rparr>)
     = (Some \<lparr>method = ''CONNECT'', protocol = ''HTTP/1.1'', host = ''secure.test'',
              port = 8443, path = []\<rparr>,
        (fresh_conn [])\<lparr>request_line := ''CONNECT secure.test:8443 HTTP/1.1'',
           connect_method := True, protocol_major := 1, protocol_minor := 1\<rparr>) \<and>
   fst (process_request direct_env ((fresh_conn [])\<lparr>request_line := ''CONNECT secure.test''\<rparr>))
     = Some \<lparr>method = ''CONNECT'', protocol = [], host = ''secure.test'', port = 443, path = []\<rparr>"
proof -
  let ?l = "''CONNECT secure.test:8443 HTTP/1.1''"
  let ?c = "(fresh_conn [])\<lparr>request_line := ?l\<rparr>"
  let ?d = "(fresh_conn [])\<lparr>request_line := ''CONNECT secure.test''\<rparr>"
  have tk: "request_tokens ?l = [VStr ''CONNECT'', VStr ''secure.test:8443'', VStr ''HTTP/1.1'']"
    by (simp add: request_tokens_def isspace_def)
  have tk2: "request_tokens ''CONNECT secure.test'' = [VStr ''CONNECT'', VStr ''secure.test'']"
    by (simp add: request_tokens_def isspace_def)
  have nh: "\<not> strncaseeq ''secure.test:8443'' ''http://'' 7"
    "\<not> strncaseeq ''secure.test'' ''http://'' 7"
    by (simp_all add: strncaseeq_def strcaseeq_def tolower_def)
  have au: "is_authority ''secure.test:8443''" "is_authority ''secure.test''"
    by (simp_all add: is_authority_def isspace_def isdigit_def digits_val_def digit_val_def)
  have sa: "spec_authority ''secure.test:8443'' = (''secure.test'', 8443)"
    "spec_authority ''secure.test'' = (''secure.test'', 443)"
    by (simp_all add: spec_authority_def digits_val_def digit_val_def)
  have fr: "\<not> connect_method ?c" by (simp add: fresh_conn_def initialize_conn_def)
  from connect_sets_connect_method [of ?c direct_env] tk nh au
  have "process_request direct_env ?c =
           process_request_gates direct_env (?c\<lparr>connect_method := True\<rparr>)
             \<lparr>method = ''CONNECT'', protocol = ''HTTP/1.1'', host = ''secure.test'',
              port = 8443, path = []\<rparr>"
    by (simp add: sa)
  then have a: "process_request direct_env ?c
     = (Some \<lparr>method = ''CONNECT'', protocol = ''HTTP/1.1'', host = ''secure.test'',
              port = 8443, path = []\<rparr>,
        (fresh_conn [])\<lparr>request_line := ?l,
           connect_method := True, protocol_major := 1, protocol_minor := 1\<rparr>)"
    by (simp add: process_request_gates_def direct_env_def strncaseeq_def strcaseeq_def
        tolower_def memcpy_def scan_version_def scan_unsigned_def isspace_def isdigit_def
        digits_val_def digit_val_def strtoul_def ULONG_MAX_def Let_def fresh_conn_def
        initialize_conn_def)
  from connect_sets_connect_method [of ?d direct_env] tk2 nh au
  have "process_request direct_env ?d =
           process_request_gates direct_env (?d\<lparr>connect_method := True\<rparr>)
             \<lparr>method = ''CONNECT'', protocol = [], host = ''secure.test'',
              port = 443, path = []\<rparr>"
    by (simp add: sa direct_env_def)
  then have b: "fst (process_request direct_env ?d)
     = Some \<lparr>method = ''CONNECT'', protocol = [], host = ''secure.test'', port = 443, path = []\<rparr>"
    by (simp add: process_request_gates_def direct_env_def strncaseeq_def strcaseeq_def)
  from tk nh au fr a b show ?thesis by simp
qed

text \<open>
  C4, as stated, fails at \<open>CONNECT h:abc HTTP/1.0\<close>: the url is not in
  authority form, and the request sets \<open>connect_method\<close>, with the whole
  url as the host and the port 443.
\<close>

theorem connect_without_authority_form:
  "\<not> is_authority ''h:abc'' \<and>
   process_request direct_env ((fresh_conn [])\<lparr>request_line := ''CONNECT h:abc HTTP/1.0''\<rparr>)
     = (Some \<lparr>method = ''CONNECT'', protocol = ''HTTP/1.0'', host = ''h:abc'',
              port = 443, path = []\<rparr>,
        (fresh_conn [])\<lparr>request_line := ''CONNECT h:abc HTTP/1.0'',
           connect_method := True, protocol_major := 1\<rparr>)"
  by (simp add: is_authority_def run_defs direct_env_def)


section \<open>The Connection header\<close>

lemma strcaseeq_sym: "strcaseeq a b = strcaseeq b a"
  by (auto simp: strcaseeq_def)

lemma hashmap_search_None: "(hashmap_search m k = None) = (\<forall>e \<in> set m. \<not> strcaseeq (fst e) k)"
proof (cases "filter (\<lambda>e. strcaseeq (fst e) k) m")
  case Nil
  then show ?thesis by (simp add: hashmap_search_def filter_empty_conv)
next
  case (Cons e es)
  then have "e \<in> set (filter (\<lambda>e. strcaseeq (fst e) k) m)" by simp
  then have "\<exists>e \<in> set m. strcaseeq (fst e) k" by auto
  then show ?thesis using Cons by (simp add: hashmap_search_def)
qed

lemma hashmap_remove_gone: "hashmap_search (hashmap_remove m k) k = None"
  by (simp add: hashmap_search_None hashmap_remove_def)

lemma hashmap_remove_keeps_None:
  "hashmap_search m t = None \<Longrightarrow> hashmap_search (hashmap_remove m k) t = None"
  by (simp add: hashmap_search_None hashmap_remove_def)

lemma set_hashmap_remove: "set (hashmap_remove m k) \<subseteq> set m"
  by (auto simp: hashmap_remove_def)

lemma remove_tokens_keeps_None:
  "hashmap_search m t = None \<Longrightarrow> hashmap_search (remove_tokens m rest) t = None"
proof (induction m rest rule: remove_tokens.induct)
  case (1 m rest)
  show ?case
  proof (cases "rest = []")
    case True
    then show ?thesis using "1.prems" by (subst remove_tokens.simps) simp
  next
    case False
    then show ?thesis
      using "1.IH" [OF False refl] "1.prems"
      by (subst remove_tokens.simps) (simp add: Let_def hashmap_remove_keeps_None)
  qed
qed

lemma set_remove_tokens: "set (remove_tokens m rest) \<subseteq> set m"
proof (induction m rest rule: remove_tokens.induct)
  case (1 m rest)
  show ?case
  proof (cases "rest = []")
    case True
    then show ?thesis by (subst remove_tokens.simps) simp
  next
    case False
    have "remove_tokens m rest
          = remove_tokens (hashmap_remove m (takeWhile (\<lambda>c. c \<noteq> NUL) rest))
              (dropWhile (\<lambda>c. c = NUL)
                 (drop (Suc (length (takeWhile (\<lambda>c. c \<noteq> NUL) rest))) rest))"
      using False by (subst remove_tokens.simps) (simp add: Let_def)
    then show ?thesis
      using "1.IH" [OF False refl] set_hashmap_remove by fastforce
  qed
qed

lemma split_runs_skip: "split_runs P (dropWhile P xs) = split_runs P xs"
  by (simp add: split_runs.simps [of P "dropWhile P xs"] split_runs.simps [of P xs])

lemma split_runs_Nil: "split_runs P [] = []"
  by (simp add: split_runs.simps)

lemma split_runs_step:
  assumes "rest \<noteq> []"
  shows "split_runs (\<lambda>c. c = NUL) rest
         = (if takeWhile (\<lambda>c. c \<noteq> NUL) rest = [] then [] else [takeWhile (\<lambda>c. c \<noteq> NUL) rest])
           @ split_runs (\<lambda>c. c = NUL)
               (dropWhile (\<lambda>c. c = NUL) (drop (Suc (length (takeWhile (\<lambda>c. c \<noteq> NUL) rest))) rest))"
proof (cases "hd rest = NUL")
  case True
  with assms obtain r where r: "rest = NUL # r" by (cases rest) auto
  have "split_runs (\<lambda>c. c = NUL) (NUL # r) = split_runs (\<lambda>c. c = NUL) (dropWhile (\<lambda>c. c = NUL) r)"
    using split_runs_skip [of "\<lambda>c. c = NUL" "NUL # r"] by simp
  then show ?thesis by (simp add: r)
next
  case False
  with assms obtain x r where r: "rest = x # r" and x: "x \<noteq> NUL" by (cases rest) auto
  define tok where "tok = takeWhile (\<lambda>c. c \<noteq> NUL) rest"
  define d where "d = dropWhile (\<lambda>c. c \<noteq> NUL) rest"
  have tokne: "tok \<noteq> []" using r x by (simp add: tok_def)
  have dd: "d = drop (length tok) rest" by (simp add: d_def tok_def dropWhile_eq_drop)
  have "dropWhile (\<lambda>c. c = NUL) rest = rest" using r x by simp
  then have one: "split_runs (\<lambda>c. c = NUL) rest = tok # split_runs (\<lambda>c. c = NUL) d"
    using assms by (subst split_runs.simps) (simp add: tok_def d_def Let_def)
  have two: "split_runs (\<lambda>c. c = NUL) d
             = split_runs (\<lambda>c. c = NUL) (dropWhile (\<lambda>c. c = NUL) (drop (Suc (length tok)) rest))"
  proof (cases d)
    case Nil
    then have "drop (Suc (length tok)) rest = []"
      using dd by (metis drop_Suc drop_eq_Nil le_SucI tl_drop drop_all list.sel(2))
    then show ?thesis using Nil by simp
  next
    case (Cons y ys)
    then have y: "y = NUL"
      using hd_dropWhile [of "\<lambda>c. c \<noteq> NUL" rest] by (auto simp: d_def)
    have "drop (Suc (length tok)) rest = ys"
      using Cons dd by (metis drop_Suc tl_drop list.sel(3))
    then show ?thesis
      using split_runs_skip [of "\<lambda>c. c = NUL" d] Cons y by simp
  qed
  show ?thesis using one two tokne by (simp add: tok_def)
qed

lemma remove_tokens_removes:
  "t \<in> set (split_runs (\<lambda>c. c = NUL) rest) \<Longrightarrow> hashmap_search (remove_tokens m rest) t = None"
proof (induction m rest rule: remove_tokens.induct)
  case (1 m rest)
  show ?case
  proof (cases "rest = []")
    case True
    then show ?thesis using "1.prems" by (simp add: split_runs_Nil)
  next
    case False
    define tok where "tok = takeWhile (\<lambda>c. c \<noteq> NUL) rest"
    define rest' where "rest' = dropWhile (\<lambda>c. c = NUL) (drop (Suc (length tok)) rest)"
    have unf: "remove_tokens m rest = remove_tokens (hashmap_remove m tok) rest'"
      using False by (subst remove_tokens.simps) (simp add: Let_def tok_def rest'_def)
    from "1.prems" split_runs_step [OF False]
    have "t = tok \<or> t \<in> set (split_runs (\<lambda>c. c = NUL) rest')"
      by (auto simp: tok_def rest'_def split: if_splits)
    then show ?thesis
    proof
      assume "t = tok"
      then show ?thesis
        unfolding unf by (simp add: remove_tokens_keeps_None hashmap_remove_gone)
    next
      assume "t \<in> set (split_runs (\<lambda>c. c = NUL) rest')"
      then show ?thesis
        unfolding unf using "1.IH" [OF False refl, of ] by (simp add: tok_def rest'_def)
    qed
  qed
qed


lemma split_runs_trailing:
  "P d \<Longrightarrow> split_runs P (xs @ [d]) = split_runs P xs"
proof (induction P xs rule: split_runs.induct)
  case (1 delim v)
  define v' where "v' = dropWhile delim v"
  show ?case
  proof (cases "v' = []")
    case True
    then have "\<forall>x \<in> set v. delim x" by (simp add: v'_def dropWhile_eq_Nil_conv)
    then have "dropWhile delim (v @ [d]) = []" using "1.prems" by simp
    then show ?thesis
      using True by (simp add: split_runs.simps [of delim "v @ [d]"] split_runs.simps [of delim v]
          v'_def)
  next
    case False
    then have ex: "\<exists>x \<in> set v. \<not> delim x" by (auto simp: v'_def dropWhile_eq_Nil_conv)
    then have dw: "dropWhile delim (v @ [d]) = v' @ [d]"
      by (auto simp: v'_def dropWhile_append1)
    define w where "w = dropWhile (\<lambda>c. \<not> delim c) v'"
    have lhs: "split_runs delim (v @ [d])
        = takeWhile (\<lambda>c. \<not> delim c) (v' @ [d])
          # split_runs delim (dropWhile (\<lambda>c. \<not> delim c) (v' @ [d]))"
      using False by (subst split_runs.simps) (simp add: dw Let_def)
    have rhs: "split_runs delim v = takeWhile (\<lambda>c. \<not> delim c) v' # split_runs delim w"
      using False by (subst split_runs.simps) (simp add: v'_def w_def Let_def)
    show ?thesis
    proof (cases "w = []")
      case True
      then have all: "\<forall>x \<in> set v'. \<not> delim x" by (simp add: w_def dropWhile_eq_Nil_conv)
      have k3: "takeWhile (\<lambda>c. \<not> delim c) v' = v'"
        using all by (simp add: takeWhile_eq_all_conv)
      have k1: "takeWhile (\<lambda>c. \<not> delim c) (v' @ [d]) = v'"
        using all "1.prems" by (simp add: takeWhile_append2)
      have k2: "dropWhile (\<lambda>c. \<not> delim c) (v' @ [d]) = [d]"
        using all "1.prems" by (simp add: dropWhile_append2)
      have k4: "split_runs delim [d] = []"
        using "1.prems" by (simp add: split_runs.simps [of delim "[d]"])
      show ?thesis
        unfolding lhs rhs k1 k2 k3 k4 True by (simp add: split_runs_Nil)
    next
      case False
      then have exd: "\<exists>x \<in> set v'. \<not> \<not> delim x"
        by (auto simp: w_def dropWhile_eq_Nil_conv)
      then have "takeWhile (\<lambda>c. \<not> delim c) (v' @ [d]) = takeWhile (\<lambda>c. \<not> delim c) v'"
        "dropWhile (\<lambda>c. \<not> delim c) (v' @ [d]) = w @ [d]"
        by (auto simp: w_def takeWhile_append1 dropWhile_append1)
      moreover have "split_runs delim (w @ [d]) = split_runs delim w"
        using "1.IH" [OF v'_def \<open>v' \<noteq> []\<close> "1.prems"] by (simp add: w_def)
      ultimately show ?thesis unfolding lhs rhs by simp
    qed
  qed
qed

lemma split_runs_map:
  assumes "\<forall>c \<in> set v. Q (f c) = P c" "\<forall>c \<in> set v. \<not> P c \<longrightarrow> f c = c"
  shows "split_runs Q (map f v) = split_runs P v"
  using assms
proof (induction P v rule: split_runs.induct)
  case (1 delim v)
  define v' where "v' = dropWhile delim v"
  define w where "w = dropWhile (\<lambda>c. \<not> delim c) v'"
  have sub: "set v' \<subseteq> set v" "set w \<subseteq> set v"
    using set_dropWhileD [of _ delim v] set_dropWhileD [of _ "\<lambda>c. \<not> delim c" v']
    by (auto simp: v'_def w_def)
  have d1: "dropWhile Q (map f v) = map f v'"
    using "1.prems"(1) by (simp add: dropWhile_map v'_def o_def cong: dropWhile_cong)
  have t2: "takeWhile (\<lambda>c. \<not> Q c) (map f v') = map f (takeWhile (\<lambda>c. \<not> delim c) v')"
    using "1.prems"(1) sub(1) by (auto simp: takeWhile_map o_def intro!: arg_cong [where f = "map f"] takeWhile_cong)
  have "\<forall>c \<in> set (takeWhile (\<lambda>c. \<not> delim c) v'). f c = c"
    using "1.prems"(2) sub(1) by (auto dest: set_takeWhileD)
  then have t3: "map f (takeWhile (\<lambda>c. \<not> delim c) v') = takeWhile (\<lambda>c. \<not> delim c) v'"
    by (simp add: map_idI)
  have d2: "dropWhile (\<lambda>c. \<not> Q c) (map f v') = map f w"
    using "1.prems"(1) sub(1) by (auto simp: dropWhile_map o_def w_def intro!: arg_cong [where f = "map f"] dropWhile_cong)
  show ?case
  proof (cases "v' = []")
    case True
    then show ?thesis
      by (simp add: split_runs.simps [of Q "map f v"] split_runs.simps [of delim v] d1
          v'_def [symmetric])
  next
    case False
    have ih: "split_runs Q (map f w) = split_runs delim w"
      using "1.IH" [OF v'_def False] "1.prems" sub(2) by (auto simp: w_def)
    have "split_runs Q (map f v)
          = takeWhile (\<lambda>c. \<not> Q c) (map f v') # split_runs Q (dropWhile (\<lambda>c. \<not> Q c) (map f v'))"
      using False by (subst split_runs.simps) (simp add: d1 Let_def)
    moreover have "split_runs delim v = takeWhile (\<lambda>c. \<not> delim c) v' # split_runs delim w"
      using False by (subst split_runs.simps) (simp add: v'_def w_def Let_def)
    ultimately show ?thesis by (simp add: t2 t3 d2 ih)
  qed
qed

lemma tokenize_buffer:
  assumes "NUL \<notin> set v"
  shows "split_runs (\<lambda>c. c = NUL) (blank_specials v @ [NUL]) = tokenize v"
proof -
  have "split_runs (\<lambda>c. c = NUL) (blank_specials v @ [NUL])
        = split_runs (\<lambda>c. c = NUL) (blank_specials v)"
    by (rule split_runs_trailing) simp
  also have "\<dots> = split_runs (\<lambda>c. c \<in> set specials) v"
    unfolding blank_specials_def using assms by (intro split_runs_map) auto
  finally show ?thesis by (simp add: tokenize_def)
qed

lemma connection_step_removes:
  assumes "hashmap_search m ''connection'' = Some v" "NUL \<notin> set v"
  shows "(\<forall>t \<in> set (tokenize v). hashmap_search (connection_step m) t = None) \<and>
         hashmap_search (connection_step m) ''connection'' = None"
  using assms
  by (simp add: connection_step_def remove_connection_headers_def hashmap_remove_gone
      hashmap_remove_keeps_None remove_tokens_removes tokenize_buffer)


lemma add_header_entry:
  assumes "add_header_to_connection m header = Some m'"
  shows "\<exists>k d. m' = m @ [(k, d)] \<and> CHR '':'' \<notin> set k \<and> NUL \<notin> set d"
proof -
  define h where "h = cstr (chomp header)"
  define name where "name = takeWhile (\<lambda>c. c \<noteq> CHR '':'') h"
  define data where "data = dropWhile (\<lambda>c. c = CHR '':'' \<or> c = CHR '' '' \<or> c = CHR 0x09)
                            (drop (length name) h)"
  have m': "m' = m @ [(map tolower name, data)]"
    using assms
    by (auto simp: add_header_to_connection_def Let_def hashmap_insert_def h_def name_def data_def
        split: if_splits)
  have "CHR '':'' \<notin> set name" by (auto simp: name_def dest: set_takeWhileD)
  then have k: "CHR '':'' \<notin> set (map tolower name)"
    using tolower_punct(1) by force
  have "NUL \<notin> set h" by (auto simp: h_def cstr_def dest: set_takeWhileD)
  moreover have "set data \<subseteq> set h"
    by (auto simp: data_def dest!: set_dropWhileD in_set_dropD)
  ultimately have "NUL \<notin> set data" by blast
  with m' k show ?thesis by blast
qed

lemma get_all_headers_entries:
  assumes "get_all_headers env m inp = (Some m', rest)"
    and "\<forall>e \<in> set m. CHR '':'' \<notin> set (fst e) \<and> NUL \<notin> set (snd e)"
  shows "\<forall>e \<in> set m'. CHR '':'' \<notin> set (fst e) \<and> NUL \<notin> set (snd e)"
  using assms
proof (induction env m inp rule: get_all_headers.induct)
  case (1 env m inp)
  show ?case
  proof (cases "readline env inp")
    case (Line header r)
    show ?thesis
    proof (cases "CHECK_CRLF header")
      case True
      then have "m' = m" using "1.prems"(1) Line by (subst (asm) get_all_headers.simps) simp
      then show ?thesis using "1.prems"(2) by simp
    next
      case False
      show ?thesis
      proof (cases "add_header_to_connection m header")
        case None
        then show ?thesis
          using "1.prems"(1) Line False by (subst (asm) get_all_headers.simps) simp
      next
        case (Some m2)
        then have rec: "get_all_headers env m2 r = (Some m', rest)"
          using "1.prems"(1) Line False by (subst (asm) get_all_headers.simps) simp
        obtain k d where "m2 = m @ [(k, d)]" "CHR '':'' \<notin> set k" "NUL \<notin> set d"
          using add_header_entry [OF Some] by blast
        then have "\<forall>e \<in> set m2. CHR '':'' \<notin> set (fst e) \<and> NUL \<notin> set (snd e)"
          using "1.prems"(2) by auto
        then show ?thesis using "1.IH" [OF Line False Some rec] by blast
      qed
    qed
  next
    case Eof
    then show ?thesis using "1.prems"(1) by (subst (asm) get_all_headers.simps) simp
  next
    case Failed
    then show ?thesis using "1.prems"(1) by (subst (asm) get_all_headers.simps) simp
  qed
qed

lemma hashmap_search_Some: "hashmap_search m k = Some v \<Longrightarrow> \<exists>e \<in> set m. snd e = v"
proof -
  assume a: "hashmap_search m k = Some v"
  then obtain e es where f: "filter (\<lambda>e. strcaseeq (fst e) k) m = e # es" "snd e = v"
    by (auto simp: hashmap_search_def split: list.splits)
  then have "e \<in> set (filter (\<lambda>e. strcaseeq (fst e) k) m)" by simp
  then show ?thesis using f(2) by auto
qed

lemma set_via_step: "set (via_step m) \<subseteq> set m"
  using set_hashmap_remove by (auto simp: via_step_def split: option.splits)

lemma set_foldl_remove: "set (foldl hashmap_remove m ks) \<subseteq> set m"
proof (induction ks arbitrary: m)
  case Nil
  show ?case by simp
next
  case (Cons k ks)
  show ?case using Cons [of "hashmap_remove m k"] set_hashmap_remove [of m k] by auto
qed

lemma set_remaining_headers: "set (remaining_headers m) \<subseteq> set (connection_step m)"
  unfolding remaining_headers_def
  using set_foldl_remove [of "via_step (connection_step m)" skipheaders]
    set_via_step [of "connection_step m"] by blast

lemma set_connection_step: "set (connection_step m) \<subseteq> set m"
  using set_hashmap_remove set_remove_tokens
  by (fastforce simp: connection_step_def remove_connection_headers_def split: option.splits)

lemma header_name_line:
  "CHR '':'' \<notin> set k \<Longrightarrow> header_name (k @ '': '' @ v) = k"
  by (induction k) (auto simp: header_name_def)

lemma header_lines_names:
  assumes "\<forall>e \<in> set m. CHR '':'' \<notin> set (fst e)" "l \<in> set (header_lines env m)"
  shows "header_name l \<in> fst ` set m \<and> l \<noteq> CRLF"
proof -
  from assms(2) obtain k v where k: "k \<in> set (hashmap_keys m)" and l: "l = k @ '': '' @ v @ CRLF"
    by (auto simp: header_lines_def split: if_splits)
  from k have km: "k \<in> fst ` set m" by (simp add: hashmap_keys_def)
  with assms(1) have "CHR '':'' \<notin> set k" by auto
  then have "header_name l = k" unfolding l by (rule header_name_line)
  moreover have "length l > 2" unfolding l by (simp add: CRLF_def)
  then have "l \<noteq> CRLF" by (auto simp: CRLF_def)
  ultimately show ?thesis using km by simp
qed

lemmas map_defs =
  get_all_headers.simps readline_def HTTP_LINE_LENGTH_def chomp_def cstr_def NUL_def CRLF_def
  CHECK_CRLF_def add_header_to_connection_def hashmap_insert_def hashmap_search_def
  hashmap_remove_def hashmap_keys_def tolower_def strcaseeq_def connection_step_def
  remove_connection_headers_def blank_specials_def specials_def remove_tokens.simps
  via_step_def remaining_headers_def skipheaders_def header_lines_def tokenize_def
  split_runs.simps direct_env_def Let_def

text \<open>
  C5.  Let \<open>m\<close> be the header map that \<open>get_all_headers\<close> has collected and
  \<open>v\<close> the value it holds under \<open>connection\<close>.  After the Connection step
  of \<open>process_client_headers\<close> the map has no entry under any token of
  \<open>v\<close>, the tokens being the runs of \<open>v\<close> between the delimiters of
  \<open>specials\<close> (the characters \<open>( ) < > @ , ; : / [ ] ? = { }\<close>, backslash,
  double quote, space and tab), and none under \<open>connection\<close>.  The
  header lines that the function then writes to the server are those of the
  headers that remain: none of them bears the name \<open>connection\<close> or the
  name of a token.
\<close>

theorem connection_header_tokens_removed:
  assumes "get_all_headers env [] inp = (Some m, rest)"
    and "hashmap_search m ''connection'' = Some v"
  shows "(\<forall>t \<in> set (tokenize v). hashmap_search (connection_step m) t = None) \<and>
         hashmap_search (connection_step m) ''connection'' = None \<and>
         (\<forall>l \<in> set (header_lines env (remaining_headers m)).
            \<not> strcaseeq (header_name l) ''connection'' \<and>
            (\<forall>t \<in> set (tokenize v). \<not> strcaseeq (header_name l) t))"
proof -
  have inv: "\<forall>e \<in> set m. CHR '':'' \<notin> set (fst e) \<and> NUL \<notin> set (snd e)"
    using get_all_headers_entries [OF assms(1)] by simp
  then have "NUL \<notin> set v" using hashmap_search_Some [OF assms(2)] by auto
  note rem = connection_step_removes [OF assms(2) this]
  have colon: "\<forall>e \<in> set (remaining_headers m). CHR '':'' \<notin> set (fst e)"
    using inv set_remaining_headers [of m] set_connection_step [of m] by blast
  have "\<not> strcaseeq (header_name l) t"
    if l: "l \<in> set (header_lines env (remaining_headers m))"
      and t: "hashmap_search (connection_step m) t = None" for l t
  proof -
    have "header_name l \<in> fst ` set (remaining_headers m)"
      using header_lines_names [OF colon l] by simp
    then have "header_name l \<in> fst ` set (connection_step m)"
      using set_remaining_headers [of m] by blast
    then show ?thesis using t by (auto simp: hashmap_search_None)
  qed
  then show ?thesis using rem by blast
qed


theorem connection_header_tokens_removed_witness:
  "get_all_headers direct_env []
     (''Connection: Foo, close'' @ CRLF @ ''Foo: 1'' @ CRLF @ ''Accept: a'' @ CRLF @ CRLF)
     = (Some [(''connection'', ''Foo, close''), (''foo'', ''1''), (''accept'', ''a'')], []) \<and>
   hashmap_search [(''connection'', ''Foo, close''), (''foo'', ''1''), (''accept'', ''a'')]
     ''connection'' = Some ''Foo, close'' \<and>
   tokenize ''Foo, close'' = [''Foo'', ''close''] \<and>
   hashmap_search
     (connection_step [(''connection'', ''Foo, close''), (''foo'', ''1''), (''accept'', ''a'')])
     ''Foo'' = None \<and>
   hashmap_search
     (connection_step [(''connection'', ''Foo, close''), (''foo'', ''1''), (''accept'', ''a'')])
     ''connection'' = None \<and>
   header_lines direct_env
     (remaining_headers [(''connection'', ''Foo, close''), (''foo'', ''1''), (''accept'', ''a'')])
     = [''accept: a'' @ CRLF]"
proof -
  let ?inp = "''Connection: Foo, close'' @ CRLF @ ''Foo: 1'' @ CRLF @ ''Accept: a'' @ CRLF @ CRLF"
  let ?m = "[(''connection'', ''Foo, close''), (''foo'', ''1''), (''accept'', ''a'')]"
  have a: "get_all_headers direct_env [] ?inp = (Some ?m, [])"
    by (simp add: map_defs)
  have b: "hashmap_search ?m ''connection'' = Some ''Foo, close''"
    by (simp add: map_defs)
  have t: "tokenize ''Foo, close'' = [''Foo'', ''close'']"
    by (simp add: map_defs)
  have l: "header_lines direct_env (remaining_headers ?m) = [''accept: a'' @ CRLF]"
    by (simp add: map_defs)
  note inst = connection_header_tokens_removed [OF a b]
  have "hashmap_search (connection_step ?m) ''Foo'' = None"
    using inst unfolding t by simp
  moreover have "hashmap_search (connection_step ?m) ''connection'' = None"
    using inst by blast
  ultimately show ?thesis using a b t l by blast
qed


section \<open>The head of a forwarded request\<close>

lemma write_server_ok:
  "0 \<le> server_fd c \<Longrightarrow> server_wr_ok c \<Longrightarrow>
   write_server c s = (int (length s), c\<lparr>server_out := server_out c @ [s]\<rparr>)"
  by (simp add: write_server_def)

lemma write_server_out:
  "\<exists>more. server_out (snd (write_server c s)) = server_out c @ more"
  by (simp add: write_server_def)

lemma write_all_ok:
  "0 \<le> server_fd c \<Longrightarrow> server_wr_ok c \<Longrightarrow>
   write_all c ls = c\<lparr>server_out := server_out c @ ls\<rparr>"
  unfolding write_all_def
  by (induction ls arbitrary: c) (simp_all add: write_server_ok)

lemma establish_http_connection_ok:
  assumes "establish_http_connection c request = (0, c1)"
  shows "0 \<le> server_fd c \<and> server_wr_ok c \<and>
         c1 = c\<lparr>server_out := server_out c @
                [method request @ '' '' @ path request @ '' HTTP/1.0'' @ CRLF,
                 ''Host: '' @ host request @ CRLF, ''Connection: close'' @ CRLF]\<rparr>"
proof (cases "server_fd c < 0 \<or> \<not> server_wr_ok c")
  case True
  then show ?thesis
    using assms by (simp add: establish_http_connection_def write_server_def)
next
  case False
  then have "0 \<le> server_fd c" "server_wr_ok c" by auto
  then show ?thesis
    using assms by (simp add: establish_http_connection_def write_server_ok)
qed

lemma pull_client_data_server_out:
  "\<exists>more. server_out (snd (pull_client_data env c len)) = server_out c @ more"
proof (induction env c len rule: pull_client_data.induct)
  case (1 env c len)
  define k where "k = min (MAXBUFFSIZE env) len"
  define c1 where "c1 = safe_read_conn c k"
  define buffer where "buffer = safe_read_bytes c k"
  define wc where "wc = (if \<not> response_message_sent c1 then write_server c1 buffer else (0, c1))"
  have c1out: "server_out c1 = server_out c"
    by (simp add: c1_def safe_read_conn_def)
  have "\<exists>more. server_out (snd wc) = server_out c1 @ more"
    using write_server_out [of c1 buffer] by (simp add: wc_def)
  then obtain w where wcout: "server_out (snd wc) = server_out c @ w"
    using c1out by auto
  show ?case
  proof (cases "length buffer \<le> 0 \<or> fst wc < 0 \<or> \<not> len - length buffer > 0")
    case True
    then have "server_out (snd (pull_client_data env c len)) = server_out c1 \<or>
               server_out (snd (pull_client_data env c len)) = server_out (snd wc)"
      by (auto simp: pull_client_data.simps [of env c len] Let_def k_def [symmetric]
          c1_def [symmetric] buffer_def [symmetric] wc_def [symmetric] split: prod.splits)
    then show ?thesis using c1out wcout by auto
  next
    case False
    then have rec: "pull_client_data env c len = pull_client_data env (snd wc) (len - length buffer)"
      by (auto simp: pull_client_data.simps [of env c len] Let_def k_def [symmetric]
          c1_def [symmetric] buffer_def [symmetric] wc_def [symmetric] split: prod.splits)
    have "\<exists>more. server_out (snd (pull_client_data env (snd wc) (len - length buffer)))
            = server_out (snd wc) @ more"
      using False
      by (intro "1.IH" [of buffer c1 "fst wc" "snd wc"])
         (auto simp: k_def c1_def buffer_def wc_def)
    then show ?thesis using rec wcout by auto
  qed
qed

lemma foldl_remove_keeps_None:
  "hashmap_search m k = None \<Longrightarrow> hashmap_search (foldl hashmap_remove m ks) k = None"
  using set_foldl_remove [of m ks] by (auto simp: hashmap_search_None)

lemma foldl_remove_gone:
  "k \<in> set ks \<Longrightarrow> hashmap_search (foldl hashmap_remove m ks) k = None"
proof (induction ks arbitrary: m)
  case Nil
  then show ?case by simp
next
  case (Cons a ks)
  show ?case
  proof (cases "k = a")
    case True
    then show ?thesis by (simp add: foldl_remove_keeps_None hashmap_remove_gone)
  next
    case False
    then show ?thesis using Cons by simp
  qed
qed

lemma header_lines_skipped:
  assumes "\<forall>e \<in> set m. CHR '':'' \<notin> set (fst e)"
    and "l \<in> set (header_lines env (remaining_headers m))" and "k \<in> set skipheaders"
  shows "\<not> strcaseeq (header_name l) k"
proof -
  have "\<forall>e \<in> set (remaining_headers m). CHR '':'' \<notin> set (fst e)"
    using assms(1) set_remaining_headers [of m] set_connection_step [of m] by blast
  then have "header_name l \<in> fst ` set (remaining_headers m)"
    using header_lines_names assms(2) by blast
  moreover have "hashmap_search (remaining_headers m) k = None"
    unfolding remaining_headers_def using assms(3) by (rule foldl_remove_gone)
  ultimately show ?thesis by (auto simp: hashmap_search_None)
qed

lemma via_line_name:
  "header_name (via_line env c old) = ''Via'' \<and> via_line env c old \<noteq> CRLF"
  by (simp add: via_line_def header_name_def CRLF_def)

lemma own_names_not_skipped:
  "k \<in> set skipheaders \<Longrightarrow> \<not> strcaseeq ''Via'' k \<and> \<not> strcaseeq ''X-Tinyproxy'' k"
  by (auto simp: skipheaders_def strcaseeq_def tolower_def)

lemma process_client_headers_server_out:
  assumes fd: "0 \<le> server_fd c" and ok: "server_wr_ok c"
  shows "server_out (snd (process_client_headers env c)) = server_out c \<or>
         (\<exists>m rest old xt body.
            get_all_headers env [] (client_in c) = (Some m, rest) \<and>
            server_out (snd (process_client_headers env c))
              = server_out c @ [via_line env c old] @ header_lines env (remaining_headers m)
                  @ xt @ [CRLF] @ body \<and>
            (xt = [] \<or> xt = [''X-Tinyproxy: '' @ peer_ip env @ CRLF]))"
proof (cases "get_all_headers env [] (client_in c)")
  case (Pair r rest)
  show ?thesis
  proof (cases r)
    case None
    then show ?thesis using Pair by (simp add: process_client_headers_def)
  next
    case (Some m)
    note gah = Pair [unfolded Some]
    show ?thesis
    proof (cases "connect_method c \<and> \<not> UPSTREAM_CONFIGURED env")
      case True
      then show ?thesis using process_client_headers_early [OF gah] by simp
    next
      case False
      define c0 where "c0 = c\<lparr>client_in := rest\<rparr>"
      define old where "old = hashmap_search (connection_step m) ''via''"
      define hl where "hl = header_lines env (remaining_headers m)"
      define xt where "xt = (if my_domain env \<noteq> None
                             then [''X-Tinyproxy: '' @ peer_ip env @ CRLF] else [])"
      define c4 where "c4 = c0\<lparr>server_out := server_out c @ [via_line env c old] @ hl @ xt @ [CRLF]\<rparr>"
      have c0: "0 \<le> server_fd c0" "server_wr_ok c0" "server_out c0 = server_out c"
        "server_fd c0 \<noteq> -1" "connect_method c0 = connect_method c"
        "via_line env c0 old = via_line env c old"
        using fd ok by (auto simp: c0_def via_line_def)
      have "process_client_headers env c = (0, c4) \<or>
            (\<exists>len. process_client_headers env c = pull_client_data env c4 len)"
        using gah False c0 fd ok
        by (auto simp: process_client_headers_def Let_def c0_def [symmetric] old_def [symmetric]
            hl_def [symmetric] write_server_ok write_all_ok add_xtinyproxy_header_def
            c4_def xt_def)
      then have "\<exists>body. server_out (snd (process_client_headers env c))
                   = server_out c @ [via_line env c old] @ hl @ xt @ [CRLF] @ body"
      proof
        assume "process_client_headers env c = (0, c4)"
        then show ?thesis by (simp add: c4_def)
      next
        assume "\<exists>len. process_client_headers env c = pull_client_data env c4 len"
        then obtain len where "process_client_headers env c = pull_client_data env c4 len"
          by blast
        then show ?thesis
          using pull_client_data_server_out [of env c4 len] by (auto simp: c4_def)
      qed
      then obtain body where
        b: "server_out (snd (process_client_headers env c))
              = server_out c @ [via_line env c old] @ hl @ xt @ [CRLF] @ body"
        by blast
      have xtc: "xt = [] \<or> xt = [''X-Tinyproxy: '' @ peer_ip env @ CRLF]"
        by (simp add: xt_def)
      show ?thesis
        using gah b xtc unfolding hl_def
        by (intro disjI2 exI [of _ m] exI [of _ rest] exI [of _ old] exI [of _ xt]
            exI [of _ body]) simp
    qed
  qed
qed

lemma takeWhile_upto:
  "\<forall>x \<in> set xs. P x \<Longrightarrow> \<not> P y \<Longrightarrow> takeWhile P (xs @ y # ys) = xs"
  by (induction xs) auto

text \<open>
  C7.  \<open>establish_http_connection\<close> has written the request line, the Host
  line and \<open>Connection: close\<close> to a server to which nothing was written
  before, and \<open>process_client_headers\<close> follows it, as in
  \<open>handle_connection\<close> for a request forwarded to an origin or an upstream
  proxy.  Then the head of the request that reached the server, the writes
  before the blank line, is these three lines followed by lines none of
  which bears one of the names of \<open>skipheaders\<close>: host, connection,
  keep-alive, proxy-authenticate, proxy-authorization, te, trailers,
  transfer-encoding, upgrade.  So the head has one Host line, one
  \<open>Connection: close\<close> line, and none of these headers of the client.
\<close>

theorem forwarded_request_headers:
  assumes "establish_http_connection c request = (0, c1)" and "server_out c = []"
  shows "\<exists>more. request_head (snd (process_client_headers env c1))
           = [method request @ '' '' @ path request @ '' HTTP/1.0'' @ CRLF,
              ''Host: '' @ host request @ CRLF, ''Connection: close'' @ CRLF] @ more \<and>
         (\<forall>l \<in> set more. \<forall>k \<in> set skipheaders. \<not> strcaseeq (header_name l) k)"
proof -
  let ?l1 = "method request @ '' '' @ path request @ '' HTTP/1.0'' @ CRLF"
  let ?l2 = "''Host: '' @ host request @ CRLF"
  let ?l3 = "''Connection: close'' @ CRLF"
  note e = establish_http_connection_ok [OF assms(1)]
  have c1: "0 \<le> server_fd c1" "server_wr_ok c1" "server_out c1 = [?l1, ?l2, ?l3]"
    using e assms(2) by auto
  have "length ?l1 > 2" "length ?l2 > 2" "length ?l3 > 2" by (simp_all add: CRLF_def)
  then have ne: "?l1 \<noteq> CRLF" "?l2 \<noteq> CRLF" "?l3 \<noteq> CRLF" by (auto simp: CRLF_def)
  from process_client_headers_server_out [OF c1(1) c1(2), of env]
  show ?thesis
  proof
    assume "server_out (snd (process_client_headers env c1)) = server_out c1"
    then have "request_head (snd (process_client_headers env c1)) = [?l1, ?l2, ?l3] @ []"
      using ne by (simp add: request_head_def c1(3))
    then show ?thesis by (intro exI [of _ "[]"]) simp
  next
    assume "\<exists>m rest old xt body.
            get_all_headers env [] (client_in c1) = (Some m, rest) \<and>
            server_out (snd (process_client_headers env c1))
              = server_out c1 @ [via_line env c1 old] @ header_lines env (remaining_headers m)
                  @ xt @ [CRLF] @ body \<and>
            (xt = [] \<or> xt = [''X-Tinyproxy: '' @ peer_ip env @ CRLF])"
    then obtain m rest old xt body where
      gah: "get_all_headers env [] (client_in c1) = (Some m, rest)"
      and out: "server_out (snd (process_client_headers env c1))
              = server_out c1 @ [via_line env c1 old] @ header_lines env (remaining_headers m)
                  @ xt @ [CRLF] @ body"
      and xt: "xt = [] \<or> xt = [''X-Tinyproxy: '' @ peer_ip env @ CRLF]"
      by blast
    define more where "more = [via_line env c1 old] @ header_lines env (remaining_headers m) @ xt"
    have inv: "\<forall>e \<in> set m. CHR '':'' \<notin> set (fst e)"
      using get_all_headers_entries [OF gah] by simp
    have xtn: "\<forall>l \<in> set xt. header_name l = ''X-Tinyproxy'' \<and> l \<noteq> CRLF"
      using xt by (auto simp: header_name_def CRLF_def)
    have names: "\<forall>l \<in> set more. \<forall>k \<in> set skipheaders. \<not> strcaseeq (header_name l) k"
      using via_line_name [of env c1 old] own_names_not_skipped xtn
        header_lines_skipped [OF inv]
      by (auto simp: more_def)
    have colon: "\<forall>e \<in> set (remaining_headers m). CHR '':'' \<notin> set (fst e)"
      using inv set_remaining_headers [of m] set_connection_step [of m] by blast
    have hl_ne: "\<forall>l \<in> set (header_lines env (remaining_headers m)). l \<noteq> CRLF"
      using header_lines_names [OF colon] by blast
    have "\<forall>l \<in> set ([?l1, ?l2, ?l3] @ more). l \<noteq> CRLF"
      using ne via_line_name [of env c1 old] xtn hl_ne
      by (auto simp: more_def)
    then have "takeWhile (\<lambda>l. l \<noteq> CRLF) (([?l1, ?l2, ?l3] @ more) @ CRLF # body)
                 = [?l1, ?l2, ?l3] @ more"
      by (intro takeWhile_upto) auto
    then have "request_head (snd (process_client_headers env c1)) = [?l1, ?l2, ?l3] @ more"
      by (simp add: request_head_def out c1(3) more_def)
    then show ?thesis using names by blast
  qed
qed


theorem forwarded_request_headers_witness:
  "establish_http_connection
     ((fresh_conn (''Host: evil'' @ CRLF @ ''Connection: TE'' @ CRLF @ ''TE: gzip'' @ CRLF
         @ ''Accept: a'' @ CRLF @ CRLF))\<lparr>server_fd := 5\<rparr>)
     (request0\<lparr>host := ''h'', port := 80, path := ''/''\<rparr>)
     = (0, (fresh_conn (''Host: evil'' @ CRLF @ ''Connection: TE'' @ CRLF @ ''TE: gzip'' @ CRLF
         @ ''Accept: a'' @ CRLF @ CRLF))
           \<lparr>server_fd := 5,
            server_out := [''GET / HTTP/1.0'' @ CRLF, ''Host: h'' @ CRLF,
                           ''Connection: close'' @ CRLF]\<rparr>) \<and>
   server_out ((fresh_conn (''Host: evil'' @ CRLF @ ''Connection: TE'' @ CRLF @ ''TE: gzip'' @ CRLF
         @ ''Accept: a'' @ CRLF @ CRLF))\<lparr>server_fd := 5\<rparr>) = [] \<and>
   request_head (snd (process_client_headers direct_env
     ((fresh_conn (''Host: evil'' @ CRLF @ ''Connection: TE'' @ CRLF @ ''TE: gzip'' @ CRLF
         @ ''Accept: a'' @ CRLF @ CRLF))
           \<lparr>server_fd := 5,
            server_out := [''GET / HTTP/1.0'' @ CRLF, ''Host: h'' @ CRLF,
                           ''Connection: close'' @ CRLF]\<rparr>)))
     = [''GET / HTTP/1.0'' @ CRLF, ''Host: h'' @ CRLF, ''Connection: close'' @ CRLF,
        ''Via: 0.0 proxy (tinyproxy/1.5.0)'' @ CRLF, ''accept: a'' @ CRLF] \<and>
   (\<exists>more. request_head (snd (process_client_headers direct_env
     ((fresh_conn (''Host: evil'' @ CRLF @ ''Connection: TE'' @ CRLF @ ''TE: gzip'' @ CRLF
         @ ''Accept: a'' @ CRLF @ CRLF))
           \<lparr>server_fd := 5,
            server_out := [''GET / HTTP/1.0'' @ CRLF, ''Host: h'' @ CRLF,
                           ''Connection: close'' @ CRLF]\<rparr>)))
       = [''GET / HTTP/1.0'' @ CRLF, ''Host: h'' @ CRLF, ''Connection: close'' @ CRLF] @ more \<and>
      (\<forall>l \<in> set more. \<forall>k \<in> set skipheaders. \<not> strcaseeq (header_name l) k))"
proof -
  let ?inp = "''Host: evil'' @ CRLF @ ''Connection: TE'' @ CRLF @ ''TE: gzip'' @ CRLF
         @ ''Accept: a'' @ CRLF @ CRLF"
  let ?c = "(fresh_conn ?inp)\<lparr>server_fd := 5\<rparr>"
  let ?r = "request0\<lparr>host := ''h'', port := 80, path := ''/''\<rparr>"
  let ?c1 = "(fresh_conn ?inp)\<lparr>server_fd := 5,
            server_out := [''GET / HTTP/1.0'' @ CRLF, ''Host: h'' @ CRLF,
                           ''Connection: close'' @ CRLF]\<rparr>"
  have a: "establish_http_connection ?c ?r = (0, ?c1)"
    by (simp add: establish_http_connection_def write_server_def fresh_conn_def
        initialize_conn_def request0_def)
  have b: "server_out ?c = []"
    by (simp add: fresh_conn_def initialize_conn_def)
  have h: "request_head (snd (process_client_headers direct_env ?c1))
     = [''GET / HTTP/1.0'' @ CRLF, ''Host: h'' @ CRLF, ''Connection: close'' @ CRLF,
        ''Via: 0.0 proxy (tinyproxy/1.5.0)'' @ CRLF, ''accept: a'' @ CRLF]"
    by (simp add: request_head_def process_client_headers_def map_defs fresh_conn_def
        initialize_conn_def UPSTREAM_CONFIGURED_def write_server_def write_all_def via_line_def
        dec.simps digit_char_def atol_def)
  have "\<exists>more. request_head (snd (process_client_headers direct_env ?c1))
       = [''GET / HTTP/1.0'' @ CRLF, ''Host: h'' @ CRLF, ''Connection: close'' @ CRLF] @ more \<and>
      (\<forall>l \<in> set more. \<forall>k \<in> set skipheaders. \<not> strcaseeq (header_name l) k)"
    using forwarded_request_headers [OF a b, of direct_env] by (simp add: request0_def)
  then show ?thesis using a b h by blast
qed

end
